theory Spec2Isabelle
  imports Main "HOL-Library.AList" "HOL-Library.Char_ord" "HOL-Library.List_Lexorder"
begin

section \<open>Directory trees\<close>

text \<open>
  The script \<^verbatim>\<open>folders_synchronization.py\<close> mirrors a source directory into a replica
  directory. A directory is an association list from entry names to nodes, read as a finite
  map (the first binding of a name is the entry); a regular file carries its bytes, its
  modification time and its mode bits, which is everything \<^verbatim>\<open>shutil.copy2\<close> copies and
  everything \<^verbatim>\<open>filecmp\<close> looks at. The source tree and the replica tree are two separate
  trees: neither directory lies inside the other.
\<close>

datatype node =
    File (content: string) (mtime: int) (mode: nat)
  | Dir (entries: "(string \<times> node) list")

datatype kind = S_IFREG | S_IFDIR

fun stat_kind :: "node \<Rightarrow> kind" where
  "stat_kind (File c t m) = S_IFREG"
| "stat_kind (Dir es) = S_IFDIR"

fun isdir :: "node option \<Rightarrow> bool" where
  "isdir (Some (Dir es)) = True"
| "isdir other = False"

text \<open>\<^verbatim>\<open>os.listdir\<close> returns every name of the directory once.\<close>

definition listdir :: "(string \<times> node) list \<Rightarrow> string list" where
  "listdir es = remdups (map fst es)"

text \<open>\<^verbatim>\<open>posixpath.join\<close> of two components.\<close>

definition os_path_join :: "string \<Rightarrow> string \<Rightarrow> string" where
  "os_path_join a b =
     (if b \<noteq> [] \<and> hd b = CHR ''/'' then b
      else if a = [] \<or> last a = CHR ''/'' then a @ b
      else a @ ''/'' @ b)"

section \<open>The comparison: \<^verbatim>\<open>filecmp.dircmp\<close>\<close>

text \<open>
  \<^verbatim>\<open>dircmp(source, replica)\<close> is built with its default arguments, so the listings of both
  sides are filtered by \<^verbatim>\<open>hide + ignore\<close> and sorted. Its attributes are computed from the
  two listings taken when the first attribute is read: \<^verbatim>\<open>left_only\<close>, \<^verbatim>\<open>right_only\<close> and
  \<^verbatim>\<open>common\<close> in phase 1, the split of \<^verbatim>\<open>common\<close> by file type in phase 2, the shallow
  comparison of the common files in phase 3. The arguments of the functions below are the
  entries of the two directories.
\<close>

definition DEFAULT_IGNORES :: "string list" where
  "DEFAULT_IGNORES =
     [''RCS'', ''CVS'', ''tags'', ''.git'', ''.hg'', ''.bzr'', ''_darcs'', ''__pycache__'']"

definition hide :: "string list" where
  "hide = [''.'', ''..'']"

definition filter_skip :: "string list \<Rightarrow> string list \<Rightarrow> string list" where
  "filter_skip flist skip = filter (\<lambda>n. n \<notin> set skip) flist"

text \<open>
  \<^verbatim>\<open>filecmp.cmp(f1, f2, shallow=True)\<close>: equal signatures (type, size, modification time)
  count as equal; otherwise files of different sizes differ, and files of the same size are
  compared byte by byte.
\<close>

fun cmp :: "node \<Rightarrow> node \<Rightarrow> bool" where
  "cmp (File c1 t1 m1) (File c2 t2 m2) =
     (if (length c1, t1) = (length c2, t2) then True
      else if length c1 \<noteq> length c2 then False
      else c1 = c2)"
| "cmp f1 f2 = False"

definition left_list :: "(string \<times> node) list \<Rightarrow> string list" where
  "left_list src = sort (filter_skip (listdir src) (hide @ DEFAULT_IGNORES))"

definition right_list :: "(string \<times> node) list \<Rightarrow> string list" where
  "right_list rpl = sort (filter_skip (listdir rpl) (hide @ DEFAULT_IGNORES))"

definition common :: "(string \<times> node) list \<Rightarrow> (string \<times> node) list \<Rightarrow> string list" where
  "common src rpl = filter (\<lambda>n. n \<in> set (right_list rpl)) (left_list src)"

definition left_only :: "(string \<times> node) list \<Rightarrow> (string \<times> node) list \<Rightarrow> string list" where
  "left_only src rpl = filter (\<lambda>n. n \<notin> set (right_list rpl)) (left_list src)"

definition right_only :: "(string \<times> node) list \<Rightarrow> (string \<times> node) list \<Rightarrow> string list" where
  "right_only src rpl = filter (\<lambda>n. n \<notin> set (left_list src)) (right_list rpl)"

datatype phase2 = Common_dir | Common_file | Common_funny

definition classify :: "node option \<Rightarrow> node option \<Rightarrow> phase2" where
  "classify a b =
     (case (a, b) of
        (Some x, Some y) \<Rightarrow>
          (if stat_kind x \<noteq> stat_kind y then Common_funny
           else if stat_kind x = S_IFDIR then Common_dir
           else Common_file)
      | other \<Rightarrow> Common_funny)"

definition common_dirs :: "(string \<times> node) list \<Rightarrow> (string \<times> node) list \<Rightarrow> string list" where
  "common_dirs src rpl =
     filter (\<lambda>n. classify (map_of src n) (map_of rpl n) = Common_dir) (common src rpl)"

definition common_files :: "(string \<times> node) list \<Rightarrow> (string \<times> node) list \<Rightarrow> string list" where
  "common_files src rpl =
     filter (\<lambda>n. classify (map_of src n) (map_of rpl n) = Common_file) (common src rpl)"

definition common_funny :: "(string \<times> node) list \<Rightarrow> (string \<times> node) list \<Rightarrow> string list" where
  "common_funny src rpl =
     filter (\<lambda>n. classify (map_of src n) (map_of rpl n) = Common_funny) (common src rpl)"

definition files_equal :: "node option \<Rightarrow> node option \<Rightarrow> bool" where
  "files_equal a b = (case (a, b) of (Some x, Some y) \<Rightarrow> cmp x y | other \<Rightarrow> False)"

definition same_files :: "(string \<times> node) list \<Rightarrow> (string \<times> node) list \<Rightarrow> string list" where
  "same_files src rpl =
     filter (\<lambda>n. files_equal (map_of src n) (map_of rpl n)) (common_files src rpl)"

definition diff_files :: "(string \<times> node) list \<Rightarrow> (string \<times> node) list \<Rightarrow> string list" where
  "diff_files src rpl =
     filter (\<lambda>n. \<not> files_equal (map_of src n) (map_of rpl n)) (common_files src rpl)"

section \<open>Filesystem calls, exceptions and the log\<close>

text \<open>
  The mutating calls of the script are \<^verbatim>\<open>shutil.copytree\<close>, \<^verbatim>\<open>shutil.copy2\<close>,
  \<^verbatim>\<open>shutil.rmtree\<close> and \<^verbatim>\<open>os.remove\<close>, each on one entry of the replica directory at
  hand; \<^verbatim>\<open>logging.FileHandler\<close> opens the log file. The operating system is a parameter:
  \<open>refuses\<close> says which calls fail (permission denied, disk full), and \<open>leaves\<close> says
  what a failed call leaves at its destination, given what it was to copy and what was
  there: a failed \<^verbatim>\<open>copytree\<close> may leave part of the tree, a failed \<^verbatim>\<open>copy2\<close> a truncated
  file, a failed \<^verbatim>\<open>rmtree\<close> part of the tree. A failed call raises \<open>OSError\<close>. Besides,
  \<^verbatim>\<open>copytree\<close> raises \<^verbatim>\<open>FileExistsError\<close> when its destination exists, \<^verbatim>\<open>copy2\<close> onto an
  existing directory copies into that directory, and \<^verbatim>\<open>os.remove\<close> of a missing path raises
  \<^verbatim>\<open>FileNotFoundError\<close>. A raised exception is the second component of a result; the
  first component is the state reached when it was raised, since the replica is mutated in
  place. Reading a file that exists never fails, and no file is reachable under two names
  (no hard links, no symbolic links).
\<close>

datatype fsop =
    Copytree string string
  | Copy2 string string
  | Rmtree string
  | Remove string
  | Open string

datatype exn =
    FileNotFoundError string
  | FileExistsError string
  | NotADirectoryError string
  | IsADirectoryError string
  | OSError fsop

record opsys =
  refuses :: "fsop \<Rightarrow> bool"
  leaves :: "fsop \<Rightarrow> node option \<Rightarrow> node option \<Rightarrow> node option"

datatype severity = INFO | ERROR

type_synonym log_record = "severity \<times> string"

type_synonym run = "(string \<times> node) list \<times> log_record list"

text \<open>A \<^verbatim>\<open>for\<close> loop whose body may raise: the first exception ends the loop.\<close>

fun for_loop :: "('a \<Rightarrow> 's \<Rightarrow> 's \<times> exn option) \<Rightarrow> 'a list \<Rightarrow> 's \<Rightarrow> 's \<times> exn option" where
  "for_loop body [] s = (s, None)"
| "for_loop body (x # xs) s =
     (case body x s of
        (s', None) \<Rightarrow> for_loop body xs s'
      | (s', Some e) \<Rightarrow> (s', Some e))"

lemma for_loop_cong [fundef_cong]:
  assumes "xs = ys" and "s = t" and "\<And>x u. x \<in> set ys \<Longrightarrow> f x u = g x u"
  shows "for_loop f xs s = for_loop g ys t"
  unfolding assms(1,2) using assms(3)
  by (induction ys arbitrary: t) (auto split: prod.splits option.splits)

text \<open>Setting or removing one entry of a directory.\<close>

fun upd :: "string \<Rightarrow> node option \<Rightarrow> (string \<times> node) list \<Rightarrow> (string \<times> node) list" where
  "upd n None es = AList.delete n es"
| "upd n (Some v) es = AList.update n v es"

definition copytree ::
  "opsys \<Rightarrow> string \<Rightarrow> string \<Rightarrow> node option \<Rightarrow> string \<Rightarrow> (string \<times> node) list
     \<Rightarrow> (string \<times> node) list \<times> exn option" where
  "copytree os src_path rpl_path tree file es =
     (if map_of es file \<noteq> None then (es, Some (FileExistsError rpl_path))
      else if refuses os (Copytree src_path rpl_path) then
        (upd file (leaves os (Copytree src_path rpl_path) tree (map_of es file)) es,
         Some (OSError (Copytree src_path rpl_path)))
      else (upd file tree es, None))"

definition copy2 ::
  "opsys \<Rightarrow> string \<Rightarrow> string \<Rightarrow> node option \<Rightarrow> string \<Rightarrow> (string \<times> node) list
     \<Rightarrow> (string \<times> node) list \<times> exn option" where
  "copy2 os src_path rpl_path src_node file es =
     (case src_node of
        None \<Rightarrow> (es, Some (FileNotFoundError src_path))
      | Some f \<Rightarrow>
          if refuses os (Copy2 src_path rpl_path) then
            (upd file (leaves os (Copy2 src_path rpl_path) src_node (map_of es file)) es,
             Some (OSError (Copy2 src_path rpl_path)))
          else (case map_of es file of
                  Some (Dir d) \<Rightarrow> (AList.update file (Dir (AList.update file f d)) es, None)
                | other \<Rightarrow> (AList.update file f es, None)))"

definition rmtree ::
  "opsys \<Rightarrow> string \<Rightarrow> string \<Rightarrow> (string \<times> node) list
     \<Rightarrow> (string \<times> node) list \<times> exn option" where
  "rmtree os rpl_path file es =
     (if refuses os (Rmtree rpl_path) then
        (upd file (leaves os (Rmtree rpl_path) None (map_of es file)) es,
         Some (OSError (Rmtree rpl_path)))
      else (AList.delete file es, None))"

definition os_remove ::
  "opsys \<Rightarrow> string \<Rightarrow> string \<Rightarrow> (string \<times> node) list
     \<Rightarrow> (string \<times> node) list \<times> exn option" where
  "os_remove os rpl_path file es =
     (if map_of es file = None then (es, Some (FileNotFoundError rpl_path))
      else if refuses os (Remove rpl_path) then (es, Some (OSError (Remove rpl_path)))
      else (AList.delete file es, None))"

definition logging_info :: "string \<Rightarrow> log_record list \<Rightarrow> log_record list" where
  "logging_info msg j = j @ [(INFO, msg)]"

definition logging_error :: "string \<Rightarrow> log_record list \<Rightarrow> log_record list" where
  "logging_error msg j = j @ [(ERROR, msg)]"

section \<open>The two directories of one call\<close>

text \<open>
  The body of the first loop (lines 19 to 27) and of the last loop (lines 35 to 41) of
  \<^verbatim>\<open>sync_folders\<close>, as they act on the entries of the source directory and of the replica
  directory of the call; the state is the replica directory's entries and the log records
  written so far.
\<close>

definition copy_step ::
  "opsys \<Rightarrow> string \<Rightarrow> string \<Rightarrow> (string \<times> node) list \<Rightarrow> string \<Rightarrow> run
     \<Rightarrow> run \<times> exn option" where
  "copy_step os source replica src file st =
     (let src_path = os_path_join source file;
          rpl_path = os_path_join replica file;
          es = fst st; j = snd st
      in if isdir (map_of src file) then
           (case copytree os src_path rpl_path (map_of src file) file es of
              (es', None) \<Rightarrow>
                ((es', logging_info (''Copied directory from '' @ src_path @ '' to '' @ rpl_path) j),
                 None)
            | (es', Some e) \<Rightarrow> ((es', j), Some e))
         else
           (case copy2 os src_path rpl_path (map_of src file) file es of
              (es', None) \<Rightarrow>
                ((es', logging_info (''Copied file from '' @ src_path @ '' to '' @ rpl_path) j),
                 None)
            | (es', Some e) \<Rightarrow> ((es', j), Some e)))"

definition remove_step ::
  "opsys \<Rightarrow> string \<Rightarrow> string \<Rightarrow> run \<Rightarrow> run \<times> exn option" where
  "remove_step os replica file st =
     (let rpl_path = os_path_join replica file;
          es = fst st; j = snd st
      in if isdir (map_of es file) then
           (case rmtree os rpl_path file es of
              (es', None) \<Rightarrow> ((es', logging_info (''Removed directory '' @ rpl_path) j), None)
            | (es', Some e) \<Rightarrow> ((es', j), Some e))
         else
           (case os_remove os rpl_path file es of
              (es', None) \<Rightarrow> ((es', logging_info (''Removed file '' @ rpl_path) j), None)
            | (es', Some e) \<Rightarrow> ((es', j), Some e)))"

section \<open>The filesystem and \<^verbatim>\<open>sync_folders\<close>\<close>

text \<open>
  The filesystem is one tree; a path is the list of the names from the root. \<open>lookup\<close>
  follows a path, \<open>put\<close> sets (or, with \<open>None\<close>, removes) what is at a path whose parent
  directory exists. Source, replica and log file are paths into the same tree, so one of
  them may lie inside another.
\<close>

fun lookup :: "node \<Rightarrow> string list \<Rightarrow> node option" where
  "lookup n [] = Some n"
| "lookup (File c t m) (x # p) = None"
| "lookup (Dir es) (x # p) = (case map_of es x of None \<Rightarrow> None | Some c \<Rightarrow> lookup c p)"

fun put :: "string list \<Rightarrow> node option \<Rightarrow> node \<Rightarrow> node" where
  "put [] v t = (case v of None \<Rightarrow> t | Some x \<Rightarrow> x)"
| "put (n # p) v (File c t m) = File c t m"
| "put (n # p) v (Dir es) =
     (if p = [] then Dir (upd n v es)
      else (case map_of es n of
              None \<Rightarrow> Dir es
            | Some c \<Rightarrow> Dir (AList.update n (put p v c) es)))"

definition entries_at :: "node \<Rightarrow> string list \<Rightarrow> (string \<times> node) list" where
  "entries_at fs p = (case lookup fs p of Some (Dir es) \<Rightarrow> es | other \<Rightarrow> [])"

text \<open>
  The root logger has two handlers: the stream handler, whose output is the list of records,
  and the file handler, which appends a line to the log file it opened. The line is the
  level and the message; its timestamp is left out, and so are the times of the log file.
  A record is lost to the file when the file is no longer there.
\<close>

type_synonym state = "node \<times> log_record list"

fun levelname :: "severity \<Rightarrow> string" where
  "levelname INFO = ''INFO''"
| "levelname ERROR = ''ERROR''"

definition format_record :: "log_record \<Rightarrow> string" where
  "format_record r = levelname (fst r) @ '' - '' @ snd r @ [CHR 10]"

definition emit :: "string list \<Rightarrow> log_record \<Rightarrow> node \<Rightarrow> node" where
  "emit lp r fs =
     (case lookup fs lp of
        Some (File c t m) \<Rightarrow> put lp (Some (File (c @ format_record r) t m)) fs
      | other \<Rightarrow> fs)"

definition logging :: "string list \<Rightarrow> log_record list \<Rightarrow> state \<Rightarrow> state" where
  "logging lp rs st = (fold (emit lp) rs (fst st), snd st @ rs)"

text \<open>
  The bodies of the first and of the last loop on the filesystem: the step reads the entries
  of the source directory and of the replica directory as they are now, and writes the
  replica directory and the log.
\<close>

definition loop1_body ::
  "opsys \<Rightarrow> string list \<Rightarrow> string \<Rightarrow> string \<Rightarrow> string list \<Rightarrow> string list \<Rightarrow> string
     \<Rightarrow> state \<Rightarrow> state \<times> exn option" where
  "loop1_body os lp source replica sp rp file st =
     (case copy_step os source replica (entries_at (fst st) sp) file (entries_at (fst st) rp, []) of
        ((es', j'), e) \<Rightarrow> (logging lp j' (put rp (Some (Dir es')) (fst st), snd st), e))"

definition loop3_body ::
  "opsys \<Rightarrow> string list \<Rightarrow> string \<Rightarrow> string list \<Rightarrow> string \<Rightarrow> state \<Rightarrow> state \<times> exn option" where
  "loop3_body os lp replica rp file st =
     (case remove_step os replica file (entries_at (fst st) rp, []) of
        ((es', j'), e) \<Rightarrow> (logging lp j' (put rp (Some (Dir es')) (fst st), snd st), e))"

text \<open>
  A loop whose body is a call that may itself run out of depth: \<open>None\<close> is passed on.
\<close>

fun for_calls ::
  "('a \<Rightarrow> 's \<Rightarrow> ('s \<times> exn option) option) \<Rightarrow> 'a list \<Rightarrow> 's \<Rightarrow> ('s \<times> exn option) option" where
  "for_calls body [] s = Some (s, None)"
| "for_calls body (x # xs) s =
     (case body x s of
        None \<Rightarrow> None
      | Some (s', None) \<Rightarrow> for_calls body xs s'
      | Some (s', Some e) \<Rightarrow> Some (s', Some e))"

text \<open>
  \<^verbatim>\<open>sync_folders(source, replica)\<close>. \<open>source\<close> and \<open>replica\<close> are the strings of the call,
  used in the messages and in the calls; \<open>sp\<close> and \<open>rp\<close> are the paths they name. The
  comparison lists both directories on entry: a missing directory raises
  \<^verbatim>\<open>FileNotFoundError\<close>, a regular file \<^verbatim>\<open>NotADirectoryError\<close>. The recursion follows whatever
  the filesystem holds when the call is made, so the first argument bounds its depth:
  \<open>None\<close> says the bound was too small.
\<close>

fun sync_folders ::
  "nat \<Rightarrow> opsys \<Rightarrow> string list \<Rightarrow> string \<Rightarrow> string \<Rightarrow> string list \<Rightarrow> string list
     \<Rightarrow> state \<Rightarrow> (state \<times> exn option) option" where
  "sync_folders 0 os lp source replica sp rp st = None"
| "sync_folders (Suc depth) os lp source replica sp rp st =
     (case lookup (fst st) sp of
        None \<Rightarrow> Some (st, Some (FileNotFoundError source))
      | Some (File c t m) \<Rightarrow> Some (st, Some (NotADirectoryError source))
      | Some (Dir src) \<Rightarrow>
          (case lookup (fst st) rp of
             None \<Rightarrow> Some (st, Some (FileNotFoundError replica))
           | Some (File c t m) \<Rightarrow> Some (st, Some (NotADirectoryError replica))
           | Some (Dir rpl) \<Rightarrow>
               (case for_loop (loop1_body os lp source replica sp rp)
                       (left_only src rpl @ diff_files src rpl) st of
                  (st1, Some e) \<Rightarrow> Some (st1, Some e)
                | (st1, None) \<Rightarrow>
                    (case for_calls
                            (\<lambda>sub_dir. sync_folders depth os lp (os_path_join source sub_dir)
                                         (os_path_join replica sub_dir) (sp @ [sub_dir])
                                         (rp @ [sub_dir]))
                            (common_dirs src rpl) st1 of
                       None \<Rightarrow> None
                     | Some (st2, Some e) \<Rightarrow> Some (st2, Some e)
                     | Some (st2, None) \<Rightarrow>
                         Some (for_loop (loop3_body os lp replica rp) (right_only src rpl) st2)))))"

section \<open>The call on two directories that are apart\<close>

text \<open>
  When neither directory lies inside the other, the call reads a source tree that nothing
  changes and writes the replica tree only. \<open>sync_trees\<close> is \<^verbatim>\<open>sync_folders\<close> as it acts on
  these two trees; \<open>sync_folders_apart\<close> below shows that the call on the filesystem does
  just that.
\<close>

lemma size_child:
  "map_of es n = Some c \<Longrightarrow> size c < Suc (size_list (size_prod (\<lambda>x. 0) size) es)"
  by (induction es) (auto split: if_splits)

function sync_trees ::
  "opsys \<Rightarrow> string \<Rightarrow> string \<Rightarrow> node \<Rightarrow> node \<Rightarrow> (node \<times> log_record list) \<times> exn option"
where
  "sync_trees os source replica (File c t m) r =
     ((r, []), Some (NotADirectoryError source))"
| "sync_trees os source replica (Dir src) (File c t m) =
     ((File c t m, []), Some (NotADirectoryError replica))"
| "sync_trees os source replica (Dir src) (Dir rpl) =
     (case for_loop (copy_step os source replica src)
             (left_only src rpl @ diff_files src rpl) (rpl, []) of
        ((es1, j1), Some e) \<Rightarrow> ((Dir es1, j1), Some e)
      | (st1, None) \<Rightarrow>
          (case for_loop
                  (\<lambda>sub_dir st.
                     case map_of src sub_dir of
                       None \<Rightarrow> (st, Some (FileNotFoundError (os_path_join source sub_dir)))
                     | Some s \<Rightarrow>
                         (case map_of (fst st) sub_dir of
                            None \<Rightarrow> (st, Some (FileNotFoundError (os_path_join replica sub_dir)))
                          | Some r \<Rightarrow>
                              (case sync_trees os (os_path_join source sub_dir)
                                      (os_path_join replica sub_dir) s r of
                                 ((r', j'), e) \<Rightarrow>
                                   ((AList.update sub_dir r' (fst st), snd st @ j'), e))))
                  (common_dirs src rpl) st1 of
             ((es2, j2), Some e) \<Rightarrow> ((Dir es2, j2), Some e)
           | (st2, None) \<Rightarrow>
               (case for_loop (remove_step os replica) (right_only src rpl) st2 of
                  ((es3, j3), e) \<Rightarrow> ((Dir es3, j3), e))))"
  by pat_completeness auto
termination
  by (relation "measure (\<lambda>(os, source, replica, s, r). size s)") (auto dest: size_child)

section \<open>The scheduled job and \<^verbatim>\<open>main\<close>\<close>

text \<open>
  \<open>resolve\<close> is the path an argument string names: the components that
  \<^verbatim>\<open>posixpath.normpath\<close> keeps, read from the root (the process runs in the root directory
  and the tree has no symbolic links). The script never resolves a path itself.
\<close>

fun split_sep :: "string \<Rightarrow> string \<Rightarrow> string list" where
  "split_sep acc [] = [rev acc]"
| "split_sep acc (c # cs) =
     (if c = CHR ''/'' then rev acc # split_sep [] cs else split_sep (c # acc) cs)"

fun new_comps :: "bool \<Rightarrow> string list \<Rightarrow> string list \<Rightarrow> string list" where
  "new_comps initial_slashes acc [] = acc"
| "new_comps initial_slashes acc (nm # comps) =
     (if nm = [] \<or> nm = ''.'' then new_comps initial_slashes acc comps
      else if nm \<noteq> ''..'' \<or> (\<not> initial_slashes \<and> acc = []) \<or> (acc \<noteq> [] \<and> last acc = ''..'')
        then new_comps initial_slashes (acc @ [nm]) comps
      else if acc \<noteq> [] then new_comps initial_slashes (butlast acc) comps
      else new_comps initial_slashes acc comps)"

definition resolve :: "string \<Rightarrow> string list" where
  "resolve path = new_comps True [] (split_sep [] path)"

text \<open>
  The process state: a clock in seconds, the filesystem, the records handed to the stream
  handler, the job registered with the \<^verbatim>\<open>schedule\<close> library, and a counter of the calls of
  \<^verbatim>\<open>sync_folders\<close> made by the scheduler. \<^verbatim>\<open>schedule.every(n).seconds.do(f)\<close> registers a
  job whose first run is due \<open>n\<close> seconds from now (for \<open>n\<close> of at least 1, the use the
  library documents; the statements about \<^verbatim>\<open>main\<close> below that depend on the registration
  assume it); \<^verbatim>\<open>run_pending\<close> runs a job that is due and then sets its next run \<open>n\<close>
  seconds after the run ended; an exception of the job leaves \<^verbatim>\<open>run_pending\<close> uncaught.
  One call of \<^verbatim>\<open>sync_folders\<close> takes \<open>secs\<close> seconds and is given the depth bound
  \<open>depth\<close>. \<open>str\<close> is applied in \<^verbatim>\<open>main\<close> to the \<^verbatim>\<open>FileNotFoundError\<close> of the
  \<^verbatim>\<open>try\<close> block only.
\<close>

record job =
  interval :: int
  next_run :: int

record world =
  clock :: int
  fs :: node
  journal :: "log_record list"
  jobs :: "job option"
  calls :: nat

datatype outcome = Running | SystemExit "int option" | Uncaught exn


fun str :: "exn \<Rightarrow> string" where
  "str (FileNotFoundError msg) = msg"
| "str (FileExistsError msg) = msg"
| "str (NotADirectoryError msg) = msg"
| "str (IsADirectoryError msg) = msg"
| "str (OSError op) = ''OSError''"

text \<open>
  Lines 45 to 52: \<^verbatim>\<open>logging.FileHandler(log_path)\<close> opens the log file for appending, which
  creates it when it is missing, and raises when its directory is missing, when the path is
  a directory or when the operating system refuses; the exception is raised before the
  \<^verbatim>\<open>try\<close> block and ends the process.
\<close>

definition open_log :: "opsys \<Rightarrow> string \<Rightarrow> int \<Rightarrow> node \<Rightarrow> node \<times> exn option" where
  "open_log os log_path now f =
     (let lp = resolve log_path in
      if lp = [] then (f, Some (IsADirectoryError log_path))
      else
        (case lookup f (butlast lp) of
           None \<Rightarrow> (f, Some (FileNotFoundError log_path))
         | Some (File c t m) \<Rightarrow> (f, Some (NotADirectoryError log_path))
         | Some (Dir es) \<Rightarrow>
             (case lookup f lp of
                Some (Dir d) \<Rightarrow> (f, Some (IsADirectoryError log_path))
              | Some (File c t m) \<Rightarrow>
                  if refuses os (Open log_path) then (f, Some (OSError (Open log_path)))
                  else (f, None)
              | None \<Rightarrow>
                  if refuses os (Open log_path) then (f, Some (OSError (Open log_path)))
                  else (put lp (Some (File [] now 420)) f, None))))"

definition log_world :: "string list \<Rightarrow> log_record \<Rightarrow> world \<Rightarrow> world" where
  "log_world lp r w = w\<lparr>fs := emit lp r (fs w), journal := journal w @ [r]\<rparr>"

definition every_seconds_do :: "int \<Rightarrow> world \<Rightarrow> world" where
  "every_seconds_do n w = w\<lparr>jobs := Some \<lparr>interval = n, next_run = clock w + n\<rparr>\<rparr>"

definition job_func ::
  "opsys \<Rightarrow> int \<Rightarrow> nat \<Rightarrow> string list \<Rightarrow> string \<Rightarrow> string \<Rightarrow> world
     \<Rightarrow> (world \<times> exn option) option" where
  "job_func os secs depth lp source replica w =
     (case sync_folders depth os lp source replica (resolve source) (resolve replica)
             (fs w, journal w) of
        None \<Rightarrow> None
      | Some ((f, j), e) \<Rightarrow>
          Some (w\<lparr>clock := clock w + secs, fs := f, journal := j, calls := Suc (calls w)\<rparr>, e))"

definition run_pending ::
  "opsys \<Rightarrow> int \<Rightarrow> nat \<Rightarrow> string list \<Rightarrow> string \<Rightarrow> string \<Rightarrow> world
     \<Rightarrow> (world \<times> exn option) option" where
  "run_pending os secs depth lp source replica w =
     (case jobs w of
        None \<Rightarrow> Some (w, None)
      | Some jb \<Rightarrow>
          if next_run jb \<le> clock w then
            (case job_func os secs depth lp source replica w of
               None \<Rightarrow> None
             | Some (w', Some e) \<Rightarrow> Some (w', Some e)
             | Some (w', None) \<Rightarrow>
                 Some (w'\<lparr>jobs := Some (jb\<lparr>next_run := clock w' + interval jb\<rparr>)\<rparr>, None))
          else Some (w, None))"

definition time_sleep :: "int \<Rightarrow> world \<Rightarrow> world" where
  "time_sleep n w = w\<lparr>clock := clock w + n\<rparr>"

text \<open>
  The loop \<^verbatim>\<open>while True: schedule.run_pending(); time.sleep(1)\<close> never returns; \<open>fuel\<close> is
  the number of iterations observed, and \<open>Running\<close> says that the loop is still going
  after them. \<open>None\<close> says that a call of \<^verbatim>\<open>sync_folders\<close> was given too small a depth.
\<close>

fun while_True ::
  "opsys \<Rightarrow> int \<Rightarrow> nat \<Rightarrow> string list \<Rightarrow> string \<Rightarrow> string \<Rightarrow> nat \<Rightarrow> world
     \<Rightarrow> (outcome \<times> world) option" where
  "while_True os secs depth lp source replica 0 w = Some (Running, w)"
| "while_True os secs depth lp source replica (Suc n) w =
     (case run_pending os secs depth lp source replica w of
        None \<Rightarrow> None
      | Some (w', Some e) \<Rightarrow> Some (Uncaught e, w')
      | Some (w', None) \<Rightarrow> while_True os secs depth lp source replica n (time_sleep 1 w'))"

text \<open>
  The \<^verbatim>\<open>try\<close> block of \<^verbatim>\<open>main\<close> (lines 57 to 69). The builtin \<^verbatim>\<open>exit()\<close> raises
  \<^verbatim>\<open>SystemExit\<close> with no code, which \<^verbatim>\<open>except Exception\<close> does not catch and which ends
  the process with status 0.
\<close>

datatype try_result = Completed | Raised exn | Exit

definition try_block ::
  "string list \<Rightarrow> string \<Rightarrow> string \<Rightarrow> int \<Rightarrow> world \<Rightarrow> try_result \<times> world" where
  "try_block lp source replica n w =
     (let w1 = every_seconds_do n w in
      if lookup (fs w1) (resolve source) = None then
        (Raised (FileNotFoundError (''The source directory '' @ source @ '' does not exist.'')), w1)
      else if lookup (fs w1) (resolve replica) = None then
        (Raised (FileNotFoundError (''The replica directory '' @ replica @ '' does not exist.'')), w1)
      else if source = replica then
        (Exit, log_world lp (ERROR, ''The folder '' @ source @ '' is identical to '' @ replica) w1)
      else (Completed, w1))"

definition main ::
  "opsys \<Rightarrow> int \<Rightarrow> nat \<Rightarrow> string \<Rightarrow> string \<Rightarrow> int \<Rightarrow> string \<Rightarrow> nat \<Rightarrow> world
     \<Rightarrow> (outcome \<times> world) option" where
  "main os secs depth source replica n log_path fuel w =
     (case open_log os log_path (clock w) (fs w) of
        (f, Some e) \<Rightarrow> Some (Uncaught e, w)
      | (f, None) \<Rightarrow>
          (let lp = resolve log_path;
               w0 = log_world lp (INFO, ''Starting initial synchronization.'') (w\<lparr>fs := f\<rparr>)
           in case try_block lp source replica n w0 of
                (Exit, w1) \<Rightarrow> Some (SystemExit None, w1)
              | (Raised e, w1) \<Rightarrow>
                  Some (SystemExit None,
                        log_world lp
                          (ERROR, ''Error synchronizing '' @ source @ '' to '' @ replica @ '': ''
                                    @ str e) w1)
              | (Completed, w1) \<Rightarrow> while_True os secs depth lp source replica fuel w1))"

section \<open>Vocabulary of the properties\<close>

text \<open>
  \<open>listed n\<close>: the comparison does not skip the name \<open>n\<close>. \<open>apart p q\<close>: neither path
  is the other or lies inside it. \<open>every_level P s r\<close>: \<open>P\<close> holds of the comparison of
  \<open>s\<close> and \<open>r\<close> and of the comparison of every pair of common subdirectories below them,
  which are the levels a recursive comparison visits.
\<close>

definition listed :: "string \<Rightarrow> bool" where
  "listed n = (n \<notin> set (hide @ DEFAULT_IGNORES))"

fun apart :: "string list \<Rightarrow> string list \<Rightarrow> bool" where
  "apart [] q = False"
| "apart (a # p) [] = False"
| "apart (a # p) (b # q) = (a \<noteq> b \<or> apart p q)"

function every_level ::
  "((string \<times> node) list \<Rightarrow> (string \<times> node) list \<Rightarrow> bool) \<Rightarrow> node \<Rightarrow> node \<Rightarrow> bool" where
  "every_level P (Dir src) (Dir rpl) =
     (P src rpl \<and>
      list_all (\<lambda>d. case map_of src d of
                      None \<Rightarrow> False
                    | Some s \<Rightarrow> (case map_of rpl d of None \<Rightarrow> False | Some r \<Rightarrow> every_level P s r))
        (common_dirs src rpl))"
| "every_level P (File c t m) r = False"
| "every_level P (Dir src) (File c t m) = False"
  by pat_completeness auto
termination
  by (relation "measure (\<lambda>(P, s, r). size s)") (auto dest: size_child)

definition no_differences :: "(string \<times> node) list \<Rightarrow> (string \<times> node) list \<Rightarrow> bool" where
  "no_differences src rpl =
     (left_only src rpl = [] \<and> right_only src rpl = [] \<and> diff_files src rpl = [])"

definition no_type_mismatch :: "(string \<times> node) list \<Rightarrow> (string \<times> node) list \<Rightarrow> bool" where
  "no_type_mismatch src rpl = (common_funny src rpl = [])"

definition converged :: "node \<Rightarrow> node \<Rightarrow> bool" where
  "converged s r = every_level (\<lambda>src rpl. no_differences src rpl \<and> no_type_mismatch src rpl) s r"

text \<open>
  The call that the first loop issues for an entry, the call that the last loop issues for
  an entry, and the body of the second loop of \<open>sync_trees\<close>.
\<close>

definition copy_call :: "string \<Rightarrow> string \<Rightarrow> (string \<times> node) list \<Rightarrow> string \<Rightarrow> fsop" where
  "copy_call source replica src file =
     (if isdir (map_of src file)
      then Copytree (os_path_join source file) (os_path_join replica file)
      else Copy2 (os_path_join source file) (os_path_join replica file))"

definition remove_call :: "string \<Rightarrow> (string \<times> node) list \<Rightarrow> string \<Rightarrow> fsop" where
  "remove_call replica rpl file =
     (if isdir (map_of rpl file) then Rmtree (os_path_join replica file)
      else Remove (os_path_join replica file))"

definition subdir_step ::
  "opsys \<Rightarrow> string \<Rightarrow> string \<Rightarrow> (string \<times> node) list \<Rightarrow> string \<Rightarrow> run \<Rightarrow> run \<times> exn option" where
  "subdir_step os source replica src sub_dir st =
     (case map_of src sub_dir of
        None \<Rightarrow> (st, Some (FileNotFoundError (os_path_join source sub_dir)))
      | Some s \<Rightarrow>
          (case map_of (fst st) sub_dir of
             None \<Rightarrow> (st, Some (FileNotFoundError (os_path_join replica sub_dir)))
           | Some r \<Rightarrow>
               (case sync_trees os (os_path_join source sub_dir)
                       (os_path_join replica sub_dir) s r of
                  ((r', j'), e) \<Rightarrow> ((AList.update sub_dir r' (fst st), snd st @ j'), e))))"


text \<open>
  The filesystem as lines 60 to 67 of \<^verbatim>\<open>main\<close> find it, with the log file opened and the
  first line written, and the condition under which these lines raise or exit.
\<close>

definition at_check :: "opsys \<Rightarrow> string \<Rightarrow> world \<Rightarrow> node" where
  "at_check os log_path w =
     emit (resolve log_path) (INFO, ''Starting initial synchronization.'')
       (fst (open_log os log_path (clock w) (fs w)))"

definition validation_fails :: "node \<Rightarrow> string \<Rightarrow> string \<Rightarrow> bool" where
  "validation_fails f source replica =
     (lookup f (resolve source) = None \<or> lookup f (resolve replica) = None \<or> source = replica)"

section \<open>Concrete inputs\<close>

text \<open>
  An operating system that refuses no call, and one that refuses every copy and leaves the
  destination as it was. A filesystem whose source \<^verbatim>\<open>/src\<close> holds one file and whose
  replica \<^verbatim>\<open>/rpl\<close> is empty, one without \<^verbatim>\<open>/src\<close>, and one with the single directory
  \<^verbatim>\<open>/data\<close>. The process runs in the root directory, so the log path \<^verbatim>\<open>sync.log\<close> names
  \<^verbatim>\<open>/sync.log\<close>.
\<close>

definition never :: "fsop \<Rightarrow> bool" where
  "never op = False"

definition as_before :: "fsop \<Rightarrow> node option \<Rightarrow> node option \<Rightarrow> node option" where
  "as_before op src old = old"

definition no_failures :: opsys where
  "no_failures = \<lparr>refuses = never, leaves = as_before\<rparr>"

fun is_copy :: "fsop \<Rightarrow> bool" where
  "is_copy (Copy2 a b) = True"
| "is_copy (Copytree a b) = True"
| "is_copy (Rmtree a) = False"
| "is_copy (Remove a) = False"
| "is_copy (Open a) = False"

definition no_copies :: opsys where
  "no_copies = \<lparr>refuses = is_copy, leaves = as_before\<rparr>"



definition world0 :: world where
  "world0 = \<lparr>clock = 0,
     fs = Dir [(''src'', Dir [(''a.txt'', File ''v1'' 0 0)]), (''rpl'', Dir [])],
     journal = [], jobs = None, calls = 0\<rparr>"

definition world_missing :: world where
  "world_missing = \<lparr>clock = 0, fs = Dir [(''rpl'', Dir [(''old.txt'', File ''v0'' 0 0)])],
     journal = [], jobs = None, calls = 0\<rparr>"

definition world_same :: world where
  "world_same = \<lparr>clock = 0, fs = Dir [(''data'', Dir [(''a.txt'', File ''v1'' 0 0)])],
     journal = [], jobs = None, calls = 0\<rparr>"

definition world_due :: world where
  "world_due = world_missing\<lparr>jobs := Some \<lparr>interval = 3, next_run = 0\<rparr>\<rparr>"

section \<open>Facts about the comparison and the three loops\<close>

lemma isdir_iff: "isdir a \<longleftrightarrow> (\<exists>es. a = Some (Dir es))"
  by (cases a rule: isdir.cases) auto

lemma classify_dir: "classify a b = Common_dir \<longleftrightarrow> isdir a \<and> isdir b"
  by (cases a rule: isdir.cases; cases b rule: isdir.cases) (auto simp: classify_def)

lemma classify_funny:
  "classify a b = Common_funny \<longleftrightarrow>
     a = None \<or> b = None \<or> stat_kind (the a) \<noteq> stat_kind (the b)"
  by (cases a rule: isdir.cases; cases b rule: isdir.cases) (auto simp: classify_def)

lemma set_left_list: "set (left_list src) = {n. listed n \<and> map_of src n \<noteq> None}"
  by (auto simp: left_list_def filter_skip_def listdir_def listed_def map_of_eq_None_iff)

lemma set_right_list: "set (right_list rpl) = {n. listed n \<and> map_of rpl n \<noteq> None}"
  by (auto simp: right_list_def filter_skip_def listdir_def listed_def map_of_eq_None_iff)

lemma distinct_left_list: "distinct (left_list src)"
  by (simp add: left_list_def filter_skip_def listdir_def)

lemma distinct_right_list: "distinct (right_list src)"
  by (simp add: right_list_def filter_skip_def listdir_def)

lemma set_left_only:
  "set (left_only src rpl) = {n. listed n \<and> map_of src n \<noteq> None \<and> map_of rpl n = None}"
  by (auto simp: left_only_def set_left_list set_right_list)

lemma set_right_only:
  "set (right_only src rpl) = {n. listed n \<and> map_of rpl n \<noteq> None \<and> map_of src n = None}"
  by (auto simp: right_only_def set_left_list set_right_list)

lemma set_common:
  "set (common src rpl) = {n. listed n \<and> map_of src n \<noteq> None \<and> map_of rpl n \<noteq> None}"
  by (auto simp: common_def set_left_list set_right_list)

lemma set_common_dirs:
  "set (common_dirs src rpl) = {n. listed n \<and> isdir (map_of src n) \<and> isdir (map_of rpl n)}"
  by (auto simp: common_dirs_def set_common classify_dir isdir_iff)

lemma classify_file:
  "classify a b = Common_file \<longleftrightarrow>
     (\<exists>x y. a = Some x \<and> b = Some y \<and> stat_kind x = S_IFREG \<and> stat_kind y = S_IFREG)"
  by (cases a rule: isdir.cases; cases b rule: isdir.cases) (auto simp: classify_def)

lemma set_diff_files:
  "set (diff_files src rpl) =
     {n. listed n \<and> (\<exists>x y. map_of src n = Some x \<and> map_of rpl n = Some y
           \<and> stat_kind x = S_IFREG \<and> stat_kind y = S_IFREG \<and> \<not> cmp x y)}"
  by (auto simp: diff_files_def common_files_def set_common classify_file files_equal_def)

lemma cmp_refl: "stat_kind x = S_IFREG \<Longrightarrow> cmp x x"
  by (cases x) auto

lemma cmp_regular: "cmp x y \<Longrightarrow> stat_kind x = S_IFREG \<and> stat_kind y = S_IFREG"
  by (cases x; cases y) auto

lemma set_common_funny:
  "set (common_funny src rpl) =
     {n. listed n \<and> (\<exists>x y. map_of src n = Some x \<and> map_of rpl n = Some y
           \<and> stat_kind x \<noteq> stat_kind y)}"
  by (auto simp: common_funny_def set_common classify_funny)

lemma distinct_dircmp:
  "distinct (left_only src rpl)" "distinct (right_only src rpl)" "distinct (common_dirs src rpl)"
  "distinct (diff_files src rpl)"
  by (simp_all add: left_only_def right_only_def common_dirs_def diff_files_def common_files_def
        common_def distinct_left_list distinct_right_list)


declare cmp.simps [simp del]

lemma sync_trees_Dir:
  "sync_trees os source replica (Dir src) (Dir rpl) =
     (case for_loop (copy_step os source replica src)
             (left_only src rpl @ diff_files src rpl) (rpl, []) of
        ((es1, j1), Some e) \<Rightarrow> ((Dir es1, j1), Some e)
      | (st1, None) \<Rightarrow>
          (case for_loop (subdir_step os source replica src) (common_dirs src rpl) st1 of
             ((es2, j2), Some e) \<Rightarrow> ((Dir es2, j2), Some e)
           | (st2, None) \<Rightarrow>
               (case for_loop (remove_step os replica) (right_only src rpl) st2 of
                  ((es3, j3), e) \<Rightarrow> ((Dir es3, j3), e))))"
proof -
  have eq: "(\<lambda>sub_dir st.
                     case map_of src sub_dir of
                       None \<Rightarrow> (st, Some (FileNotFoundError (os_path_join source sub_dir)))
                     | Some s \<Rightarrow>
                         (case map_of (fst st) sub_dir of
                            None \<Rightarrow> (st, Some (FileNotFoundError (os_path_join replica sub_dir)))
                          | Some r \<Rightarrow>
                              (case sync_trees os (os_path_join source sub_dir)
                                      (os_path_join replica sub_dir) s r of
                                 ((r', j'), e) \<Rightarrow>
                                   ((AList.update sub_dir r' (fst st), snd st @ j'), e))))
        = subdir_step os source replica src"
    by (intro ext) (simp add: subdir_step_def)
  show ?thesis unfolding sync_trees.simps eq by (rule refl)
qed

lemma for_loop_append:
  "for_loop f (xs @ ys) s =
     (case for_loop f xs s of (s', None) \<Rightarrow> for_loop f ys s' | (s', Some e) \<Rightarrow> (s', Some e))"
  by (induction xs arbitrary: s) (auto split: prod.splits option.splits)

lemma for_loop_invariant:
  assumes "for_loop f xs s = (s', e)" and "I s"
    and "\<And>x t t' e'. x \<in> set xs \<Longrightarrow> I t \<Longrightarrow> f x t = (t', e') \<Longrightarrow> I t'"
  shows "I s'"
  using assms
proof (induction xs arbitrary: s)
  case Nil
  then show ?case by simp
next
  case (Cons x xs)
  obtain t e' where fx: "f x s = (t, e')" by (cases "f x s")
  have It: "I t" using Cons.prems(2,3) fx by auto
  show ?case
  proof (cases e')
    case None
    with Cons.prems(1) fx have "for_loop f xs t = (s', e)" by simp
    from Cons.IH[OF this It] Cons.prems(3) show ?thesis by auto
  next
    case (Some a)
    with Cons.prems(1) fx It show ?thesis by simp
  qed
qed

lemma map_of_upd: "map_of (upd n v es) = (map_of es)(n := v)"
  by (cases v) (simp_all add: AList.update_conv' AList.delete_conv')

lemma copy_step_success:
  assumes "copy_step os source replica src x (es, j) = ((es', j'), None)"
    and "\<not> isdir (map_of es x)"
  shows "map_of es' = (map_of es)(x := map_of src x) \<and> map_of src x \<noteq> None
         \<and> \<not> refuses os (copy_call source replica src x) \<and> length j' = Suc (length j)"
  using assms
  by (auto simp: copy_step_def copytree_def copy2_def Let_def logging_info_def copy_call_def
        isdir_iff AList.update_conv'
      split: if_splits option.splits prod.splits node.splits)

lemma copy_step_frame:
  assumes "copy_step os source replica src x (es, j) = ((es', j'), e)" and "n \<noteq> x"
  shows "map_of es' n = map_of es n"
  using assms
  by (auto simp: copy_step_def copytree_def copy2_def Let_def AList.update_conv' map_of_upd
      split: if_splits option.splits prod.splits node.splits)

lemma remove_step_success:
  assumes "remove_step os replica x (es, j) = ((es', j'), None)"
  shows "map_of es' = (map_of es)(x := None) \<and> length j' = Suc (length j)"
  using assms
  by (auto simp: remove_step_def rmtree_def os_remove_def Let_def logging_info_def AList.delete_conv'
      split: if_splits option.splits prod.splits)

lemma remove_step_frame:
  assumes "remove_step os replica x (es, j) = ((es', j'), e)" and "n \<noteq> x"
  shows "map_of es' n = map_of es n"
  using assms
  by (auto simp: remove_step_def rmtree_def os_remove_def Let_def AList.delete_conv' map_of_upd
      split: if_splits option.splits prod.splits)

lemma copy_loop_frame:
  assumes "for_loop (copy_step os source replica src) xs (es, j) = ((es', j'), e)"
    and "n \<notin> set xs"
  shows "map_of es' n = map_of es n"
proof -
  have step: "map_of (fst t') n = map_of es n"
    if "x \<in> set xs" "map_of (fst t) n = map_of es n" "copy_step os source replica src x t = (t', e')"
    for x t t' e'
  proof -
    have "n \<noteq> x" using that(1) assms(2) by auto
    moreover have "copy_step os source replica src x (fst t, snd t) = ((fst t', snd t'), e')" using that(3) by simp
    ultimately have "map_of (fst t') n = map_of (fst t) n" by (rule copy_step_frame[rotated])
    with that(2) show ?thesis by simp
  qed
  have "map_of (fst ((es', j'))) n = map_of es n"
    by (rule for_loop_invariant[OF assms(1), where I="\<lambda>st. map_of (fst st) n = map_of es n"])
       (use step in auto)
  then show ?thesis by simp
qed

lemma copy_loop_success:
  assumes "for_loop (copy_step os source replica src) xs (es, j) = ((es', j'), None)"
    and "distinct xs" and "\<forall>x\<in>set xs. \<not> isdir (map_of es x)"
  shows "map_of es' = (\<lambda>n. if n \<in> set xs then map_of src n else map_of es n)"
  using assms
proof (induction xs arbitrary: es j)
  case Nil
  then show ?case by simp
next
  case (Cons x xs)
  obtain es1 j1 e1 where st: "copy_step os source replica src x (es, j) = ((es1, j1), e1)"
    by (metis surj_pair)
  with Cons.prems(1) have e1: "e1 = None" by (cases e1) auto
  from st e1 Cons.prems(3) have m1: "map_of es1 = (map_of es)(x := map_of src x)"
    using copy_step_success by auto
  have rest: "for_loop (copy_step os source replica src) xs (es1, j1) = ((es', j'), None)"
    using Cons.prems(1) st e1 by simp
  have "\<forall>y\<in>set xs. \<not> isdir (map_of es1 y)"
    using Cons.prems(2,3) m1 by auto
  from Cons.IH[OF rest _ this] Cons.prems(2)
  have "map_of es' = (\<lambda>n. if n \<in> set xs then map_of src n else map_of es1 n)" by simp
  then show ?case using m1 by auto
qed

lemma remove_loop_frame:
  assumes "for_loop (remove_step os replica) xs (es, j) = ((es', j'), e)"
    and "n \<notin> set xs"
  shows "map_of es' n = map_of es n"
proof -
  have step: "map_of (fst t') n = map_of es n"
    if "x \<in> set xs" "map_of (fst t) n = map_of es n" "remove_step os replica x t = (t', e')"
    for x t t' e'
  proof -
    have "n \<noteq> x" using that(1) assms(2) by auto
    moreover have "remove_step os replica x (fst t, snd t) = ((fst t', snd t'), e')" using that(3) by simp
    ultimately have "map_of (fst t') n = map_of (fst t) n" by (rule remove_step_frame[rotated])
    with that(2) show ?thesis by simp
  qed
  have "map_of (fst ((es', j'))) n = map_of es n"
    by (rule for_loop_invariant[OF assms(1), where I="\<lambda>st. map_of (fst st) n = map_of es n"])
       (use step in auto)
  then show ?thesis by simp
qed

lemma remove_loop_success:
  assumes "for_loop (remove_step os replica) xs (es, j) = ((es', j'), None)"
  shows "map_of es' = (\<lambda>n. if n \<in> set xs then None else map_of es n)"
  using assms
proof (induction xs arbitrary: es j)
  case Nil
  then show ?case by simp
next
  case (Cons x xs)
  obtain es1 j1 e1 where st: "remove_step os replica x (es, j) = ((es1, j1), e1)"
    by (metis surj_pair)
  with Cons.prems(1) have e1: "e1 = None" by (cases e1) auto
  from st e1 have m1: "map_of es1 = (map_of es)(x := None)"
    using remove_step_success by auto
  have rest: "for_loop (remove_step os replica) xs (es1, j1) = ((es', j'), None)"
    using Cons.prems(1) st e1 by simp
  from Cons.IH[OF rest] m1 show ?case by auto
qed

lemma subdir_step_cases:
  assumes "subdir_step os source replica src d (es, j) = ((es', j'), e)"
  shows "(es' = es \<and> j' = j \<and> e \<noteq> None) \<or>
         (\<exists>s r r' jd. map_of src d = Some s \<and> map_of es d = Some r
            \<and> sync_trees os (os_path_join source d) (os_path_join replica d) s r = ((r', jd), e)
            \<and> es' = AList.update d r' es \<and> j' = j @ jd)"
  using assms by (auto simp: subdir_step_def split: option.splits prod.splits)

lemma subdir_step_frame:
  assumes "subdir_step os source replica src d (es, j) = ((es', j'), e)" and "n \<noteq> d"
  shows "map_of es' n = map_of es n"
  using subdir_step_cases[OF assms(1)] assms(2) by (auto simp: AList.update_conv')

lemma subdir_loop_frame:
  assumes "for_loop (subdir_step os source replica src) xs (es, j) = ((es', j'), e)"
    and "n \<notin> set xs"
  shows "map_of es' n = map_of es n"
proof -
  have step: "map_of (fst t') n = map_of es n"
    if "x \<in> set xs" "map_of (fst t) n = map_of es n" "subdir_step os source replica src x t = (t', e')"
    for x t t' e'
  proof -
    have "n \<noteq> x" using that(1) assms(2) by auto
    moreover have "subdir_step os source replica src x (fst t, snd t) = ((fst t', snd t'), e')" using that(3) by simp
    ultimately have "map_of (fst t') n = map_of (fst t) n" by (rule subdir_step_frame[rotated])
    with that(2) show ?thesis by simp
  qed
  have "map_of (fst ((es', j'))) n = map_of es n"
    by (rule for_loop_invariant[OF assms(1), where I="\<lambda>st. map_of (fst st) n = map_of es n"])
       (use step in auto)
  then show ?thesis by simp
qed

lemma subdir_loop_success:
  assumes "for_loop (subdir_step os source replica src) xs (es, j) = ((es', j'), None)"
    and "distinct xs" and "d \<in> set xs"
  shows "\<exists>s r r' jd. map_of src d = Some s \<and> map_of es d = Some r
            \<and> sync_trees os (os_path_join source d) (os_path_join replica d) s r
                = ((r', jd), None)
            \<and> map_of es' d = Some r'"
  using assms
proof (induction xs arbitrary: es j)
  case Nil
  then show ?case by simp
next
  case (Cons x xs)
  obtain es1 j1 e1 where st: "subdir_step os source replica src x (es, j) = ((es1, j1), e1)"
    by (metis surj_pair)
  with Cons.prems(1) have e1: "e1 = None" by (cases e1) auto
  have rest: "for_loop (subdir_step os source replica src) xs (es1, j1) = ((es', j'), None)"
    using Cons.prems(1) st e1 by simp
  show ?case
  proof (cases "d = x")
    case True
    from subdir_step_cases[OF st] e1 obtain s r r' jd where
      c: "map_of src x = Some s" "map_of es x = Some r"
         "sync_trees os (os_path_join source x) (os_path_join replica x) s r = ((r', jd), None)"
         "es1 = AList.update x r' es"
      by auto
    have "x \<notin> set xs" using Cons.prems(2) by simp
    from subdir_loop_frame[OF rest this] c(4) have "map_of es' x = Some r'"
      by (simp add: AList.update_conv')
    with c True show ?thesis by auto
  next
    case False
    then have dx: "d \<in> set xs" using Cons.prems(3) by simp
    from Cons.IH[OF rest _ dx] Cons.prems(2) obtain s r r' jd where
      c: "map_of src d = Some s" "map_of es1 d = Some r"
         "sync_trees os (os_path_join source d) (os_path_join replica d) s r = ((r', jd), None)"
         "map_of es' d = Some r'"
      by auto
    from subdir_step_frame[OF st False] c(2) have "map_of es d = Some r" by simp
    with c show ?thesis by auto
  qed
qed

lemma subdir_loop_any:
  assumes "for_loop (subdir_step os source replica src) xs (es, j) = ((es', j'), e)"
    and "distinct xs" and "d \<in> set xs"
  shows "map_of es' d = map_of es d \<or>
         (\<exists>s r r' jd e'. map_of src d = Some s \<and> map_of es d = Some r
            \<and> sync_trees os (os_path_join source d) (os_path_join replica d) s r
                = ((r', jd), e')
            \<and> map_of es' d = Some r')"
  using assms
proof (induction xs arbitrary: es j)
  case Nil
  then show ?case by simp
next
  case (Cons x xs)
  obtain es1 j1 e1 where st: "subdir_step os source replica src x (es, j) = ((es1, j1), e1)"
    by (metis surj_pair)
  show ?case
  proof (cases e1)
    case (Some a)
    with Cons.prems(1) st have fin: "es' = es1"  by simp
    show ?thesis
    proof (cases "d = x")
      case True
      with subdir_step_cases[OF st] fin show ?thesis by (auto simp: AList.update_conv')
    next
      case False
      with subdir_step_frame[OF st False] fin show ?thesis by simp
    qed
  next
    case None
    have rest: "for_loop (subdir_step os source replica src) xs (es1, j1) = ((es', j'), e)"
      using Cons.prems(1) st None by simp
    show ?thesis
    proof (cases "d = x")
      case True
      have "x \<notin> set xs" using Cons.prems(2) by simp
      from subdir_loop_frame[OF rest this] have "map_of es' x = map_of es1 x" .
      with subdir_step_cases[OF st] None True show ?thesis by (auto simp: AList.update_conv')
    next
      case False
      then have dx: "d \<in> set xs" using Cons.prems(3) by simp
      from Cons.IH[OF rest _ dx] Cons.prems(2) subdir_step_frame[OF st False]
      show ?thesis by auto
    qed
  qed
qed


lemma sync_loops:
  assumes "sync_trees os source replica (Dir src) (Dir rpl) = ((r', j), e)"
  shows "(\<exists>es1 j1. for_loop (copy_step os source replica src)
             (left_only src rpl @ diff_files src rpl) (rpl, []) = ((es1, j1), e)
            \<and> e \<noteq> None \<and> r' = Dir es1 \<and> j = j1)
       \<or> (\<exists>es1 j1 es2 j2. for_loop (copy_step os source replica src)
             (left_only src rpl @ diff_files src rpl) (rpl, []) = ((es1, j1), None)
            \<and> for_loop (subdir_step os source replica src) (common_dirs src rpl) (es1, j1)
                = ((es2, j2), e)
            \<and> e \<noteq> None \<and> r' = Dir es2 \<and> j = j2)
       \<or> (\<exists>es1 j1 es2 j2 es3 j3. for_loop (copy_step os source replica src)
             (left_only src rpl @ diff_files src rpl) (rpl, []) = ((es1, j1), None)
            \<and> for_loop (subdir_step os source replica src) (common_dirs src rpl) (es1, j1)
                = ((es2, j2), None)
            \<and> for_loop (remove_step os replica) (right_only src rpl) (es2, j2)
                = ((es3, j3), e)
            \<and> r' = Dir es3 \<and> j = j3)"
  using assms unfolding sync_trees_Dir
  by (auto split: prod.splits option.splits)

lemma copy_items_distinct: "distinct (left_only src rpl @ diff_files src rpl)"
  by (auto simp: distinct_dircmp set_left_only set_diff_files)

lemma copy_items_no_dir:
  "x \<in> set (left_only src rpl @ diff_files src rpl) \<Longrightarrow> \<not> isdir (map_of rpl x)"
  by (auto simp: set_left_only set_diff_files isdir_iff)

lemma sync_success:
  assumes "sync_trees os source replica (Dir src) (Dir rpl) = ((r', j), None)"
  shows "\<exists>es'. r' = Dir es'
     \<and> (\<forall>n \<in> set (left_only src rpl) \<union> set (diff_files src rpl). map_of es' n = map_of src n)
     \<and> (\<forall>n \<in> set (right_only src rpl). map_of es' n = None)
     \<and> (\<forall>n. n \<notin> set (left_only src rpl) \<union> set (diff_files src rpl)
               \<union> set (common_dirs src rpl) \<union> set (right_only src rpl)
            \<longrightarrow> map_of es' n = map_of rpl n)
     \<and> (\<forall>d \<in> set (common_dirs src rpl). \<exists>s r r'' jd.
            map_of src d = Some s \<and> map_of rpl d = Some r
          \<and> sync_trees os (os_path_join source d) (os_path_join replica d) s r
               = ((r'', jd), None)
          \<and> map_of es' d = Some r'')"
proof -
  from sync_loops[OF assms] obtain es1 j1 es2 j2 es3 j3 where
    l1: "for_loop (copy_step os source replica src)
             (left_only src rpl @ diff_files src rpl) (rpl, []) = ((es1, j1), None)"
    and l2: "for_loop (subdir_step os source replica src) (common_dirs src rpl) (es1, j1)
                = ((es2, j2), None)"
    and l3: "for_loop (remove_step os replica) (right_only src rpl) (es2, j2)
                = ((es3, j3), None)"
    and r': "r' = Dir es3"
    by auto
  have m1: "map_of es1 = (\<lambda>n. if n \<in> set (left_only src rpl @ diff_files src rpl)
                              then map_of src n else map_of rpl n)"
    by (rule copy_loop_success[OF l1 copy_items_distinct]) (use copy_items_no_dir in blast)
  have m3: "map_of es3 = (\<lambda>n. if n \<in> set (right_only src rpl) then None else map_of es2 n)"
    by (rule remove_loop_success[OF l3])
  have f2: "map_of es2 n = map_of es1 n" if "n \<notin> set (common_dirs src rpl)" for n
    by (rule subdir_loop_frame[OF l2 that])
  have a: "\<forall>n \<in> set (left_only src rpl) \<union> set (diff_files src rpl). map_of es3 n = map_of src n"
  proof
    fix n assume n: "n \<in> set (left_only src rpl) \<union> set (diff_files src rpl)"
    then have "n \<notin> set (common_dirs src rpl)" "n \<notin> set (right_only src rpl)"
      by (auto simp: set_left_only set_diff_files set_common_dirs set_right_only isdir_iff)
    with m3 f2 m1 n show "map_of es3 n = map_of src n" by auto
  qed
  have b: "\<forall>n \<in> set (right_only src rpl). map_of es3 n = None"
    using m3 by simp
  have c: "\<forall>n. n \<notin> set (left_only src rpl) \<union> set (diff_files src rpl)
               \<union> set (common_dirs src rpl) \<union> set (right_only src rpl)
            \<longrightarrow> map_of es3 n = map_of rpl n"
    using m3 f2 m1 by auto
  have d: "\<forall>d \<in> set (common_dirs src rpl). \<exists>s r r'' jd.
            map_of src d = Some s \<and> map_of rpl d = Some r
          \<and> sync_trees os (os_path_join source d) (os_path_join replica d) s r
               = ((r'', jd), None)
          \<and> map_of es3 d = Some r''"
  proof
    fix d assume d: "d \<in> set (common_dirs src rpl)"
    from subdir_loop_success[OF l2 distinct_dircmp(3) d] obtain s r r'' jd where
      x: "map_of src d = Some s" "map_of es1 d = Some r"
         "sync_trees os (os_path_join source d) (os_path_join replica d) s r = ((r'', jd), None)"
         "map_of es2 d = Some r''"
      by blast
    have "d \<notin> set (left_only src rpl @ diff_files src rpl)" "d \<notin> set (right_only src rpl)"
      using d by (auto simp: set_left_only set_diff_files set_common_dirs set_right_only isdir_iff)
    with m1 m3 x show "\<exists>s r r'' jd.
            map_of src d = Some s \<and> map_of rpl d = Some r
          \<and> sync_trees os (os_path_join source d) (os_path_join replica d) s r
               = ((r'', jd), None)
          \<and> map_of es3 d = Some r''" by auto
  qed
  from r' a b c d show ?thesis by blast
qed

lemma sync_any:
  assumes "sync_trees os source replica (Dir src) (Dir rpl) = ((r', j), e)"
  shows "\<exists>es'. r' = Dir es'
     \<and> (\<forall>n. n \<notin> set (left_only src rpl) \<union> set (diff_files src rpl)
               \<union> set (common_dirs src rpl) \<union> set (right_only src rpl)
            \<longrightarrow> map_of es' n = map_of rpl n)
     \<and> (\<forall>d \<in> set (common_dirs src rpl). map_of es' d = map_of rpl d \<or> (\<exists>s r r'' jd e'.
            map_of src d = Some s \<and> map_of rpl d = Some r
          \<and> sync_trees os (os_path_join source d) (os_path_join replica d) s r
               = ((r'', jd), e')
          \<and> map_of es' d = Some r''))"
proof -
  have cd_not: "d \<notin> set (left_only src rpl @ diff_files src rpl)" "d \<notin> set (right_only src rpl)"
    if "d \<in> set (common_dirs src rpl)" for d
    using that by (auto simp: set_left_only set_diff_files set_common_dirs set_right_only isdir_iff)
  from sync_loops[OF assms] consider
    (one) es1 j1 where "for_loop (copy_step os source replica src)
             (left_only src rpl @ diff_files src rpl) (rpl, []) = ((es1, j1), e)" "r' = Dir es1"
  | (two) es1 j1 es2 j2 where "for_loop (copy_step os source replica src)
             (left_only src rpl @ diff_files src rpl) (rpl, []) = ((es1, j1), None)"
       "for_loop (subdir_step os source replica src) (common_dirs src rpl) (es1, j1)
                = ((es2, j2), e)" "r' = Dir es2"
  | (three) es1 j1 es2 j2 es3 j3 where "for_loop (copy_step os source replica src)
             (left_only src rpl @ diff_files src rpl) (rpl, []) = ((es1, j1), None)"
       "for_loop (subdir_step os source replica src) (common_dirs src rpl) (es1, j1)
                = ((es2, j2), None)"
       "for_loop (remove_step os replica) (right_only src rpl) (es2, j2)
                = ((es3, j3), e)" "r' = Dir es3"
    by blast
  then show ?thesis
  proof cases
    case one
    have "map_of es1 n = map_of rpl n" if "n \<notin> set (left_only src rpl @ diff_files src rpl)" for n
      by (rule copy_loop_frame[OF one(1) that])
    with one(2) cd_not show ?thesis by auto
  next
    case two
    have f1: "map_of es1 n = map_of rpl n" if "n \<notin> set (left_only src rpl @ diff_files src rpl)" for n
      by (rule copy_loop_frame[OF two(1) that])
    have f2: "map_of es2 n = map_of es1 n" if "n \<notin> set (common_dirs src rpl)" for n
      by (rule subdir_loop_frame[OF two(2) that])
    have "map_of es2 d = map_of rpl d \<or> (\<exists>s r r'' jd e'.
            map_of src d = Some s \<and> map_of rpl d = Some r
          \<and> sync_trees os (os_path_join source d) (os_path_join replica d) s r
               = ((r'', jd), e')
          \<and> map_of es2 d = Some r'')" if d: "d \<in> set (common_dirs src rpl)" for d
      using subdir_loop_any[OF two(2) distinct_dircmp(3) d] f1[OF cd_not(1)[OF d]] by auto
    with two(3) f1 f2 show ?thesis by auto
  next
    case three
    have f1: "map_of es1 n = map_of rpl n" if "n \<notin> set (left_only src rpl @ diff_files src rpl)" for n
      by (rule copy_loop_frame[OF three(1) that])
    have f2: "map_of es2 n = map_of es1 n" if "n \<notin> set (common_dirs src rpl)" for n
      by (rule subdir_loop_frame[OF three(2) that])
    have f3: "map_of es3 n = map_of es2 n" if "n \<notin> set (right_only src rpl)" for n
      by (rule remove_loop_frame[OF three(3) that])
    have "map_of es3 d = map_of rpl d \<or> (\<exists>s r r'' jd e'.
            map_of src d = Some s \<and> map_of rpl d = Some r
          \<and> sync_trees os (os_path_join source d) (os_path_join replica d) s r
               = ((r'', jd), e')
          \<and> map_of es3 d = Some r'')" if d: "d \<in> set (common_dirs src rpl)" for d
      using subdir_loop_any[OF three(2) distinct_dircmp(3) d] f1[OF cd_not(1)[OF d]]
        f3[OF cd_not(2)[OF d]] by auto
    with three(4) f1 f2 f3 show ?thesis by auto
  qed
qed


lemma stat_kind_dir: "stat_kind x = S_IFDIR \<longleftrightarrow> (\<exists>es. x = Dir es)"
  by (cases x) auto

lemma stat_kind_reg: "stat_kind x = S_IFREG \<longleftrightarrow> (\<exists>c t m. x = File c t m)"
  by (cases x) auto

lemma sync_success_pointwise:
  assumes "sync_trees os source replica (Dir src) (Dir rpl) = ((r', j), None)"
  shows "\<exists>es'. r' = Dir es'
     \<and> (\<forall>n. \<not> listed n \<longrightarrow> map_of es' n = map_of rpl n)
     \<and> (\<forall>n. listed n \<longrightarrow> map_of src n = None \<longrightarrow> map_of es' n = None)
     \<and> (\<forall>n. listed n \<longrightarrow> map_of rpl n = None \<longrightarrow> map_of es' n = map_of src n)
     \<and> (\<forall>n x y. listed n \<longrightarrow> map_of src n = Some x \<longrightarrow> map_of rpl n = Some y
            \<longrightarrow> stat_kind x = S_IFREG \<longrightarrow> stat_kind y = S_IFREG
            \<longrightarrow> map_of es' n = (if cmp x y then Some y else Some x))
     \<and> (\<forall>n x y. map_of src n = Some x \<longrightarrow> map_of rpl n = Some y
            \<longrightarrow> stat_kind x \<noteq> stat_kind y \<longrightarrow> map_of es' n = Some y)
     \<and> (\<forall>n sd rd. listed n \<longrightarrow> map_of src n = Some (Dir sd) \<longrightarrow> map_of rpl n = Some (Dir rd)
            \<longrightarrow> (\<exists>r'' jd. sync_trees os (os_path_join source n) (os_path_join replica n)
                              (Dir sd) (Dir rd) = ((r'', jd), None)
                         \<and> map_of es' n = Some r''))"
proof -
  from sync_success[OF assms] obtain es' where
    r': "r' = Dir es'"
    and a: "\<And>n. n \<in> set (left_only src rpl) \<union> set (diff_files src rpl) \<Longrightarrow> map_of es' n = map_of src n"
    and b: "\<And>n. n \<in> set (right_only src rpl) \<Longrightarrow> map_of es' n = None"
    and c: "\<And>n. n \<notin> set (left_only src rpl) \<union> set (diff_files src rpl)
               \<union> set (common_dirs src rpl) \<union> set (right_only src rpl)
            \<Longrightarrow> map_of es' n = map_of rpl n"
    and d: "\<And>d. d \<in> set (common_dirs src rpl) \<Longrightarrow> \<exists>s r r'' jd.
            map_of src d = Some s \<and> map_of rpl d = Some r
          \<and> sync_trees os (os_path_join source d) (os_path_join replica d) s r
               = ((r'', jd), None)
          \<and> map_of es' d = Some r''"
    by blast
  have 1: "map_of es' n = map_of rpl n" if "\<not> listed n" for n
    using that by (intro c) (auto simp: set_left_only set_diff_files set_common_dirs set_right_only)
  have 2: "map_of es' n = None" if "listed n" "map_of src n = None" for n
  proof (cases "map_of rpl n")
    case None
    have "map_of es' n = map_of rpl n"
      using that None
      by (intro c) (auto simp: set_left_only set_diff_files set_common_dirs set_right_only isdir_iff)
    with None show ?thesis by simp
  next
    case (Some y)
    with that show ?thesis by (intro b) (auto simp: set_right_only)
  qed
  have 3: "map_of es' n = map_of src n" if "listed n" "map_of rpl n = None" for n
  proof (cases "map_of src n")
    case None
    with 2 that show ?thesis by simp
  next
    case (Some x)
    with that show ?thesis by (intro a) (auto simp: set_left_only)
  qed
  have 4: "map_of es' n = (if cmp x y then Some y else Some x)"
    if "listed n" "map_of src n = Some x" "map_of rpl n = Some y"
       "stat_kind x = S_IFREG" "stat_kind y = S_IFREG" for n x y
  proof (cases "cmp x y")
    case True
    have "map_of es' n = map_of rpl n"
      using that True
      by (intro c) (auto simp: set_left_only set_diff_files set_common_dirs set_right_only isdir_iff)
    with that True show ?thesis by simp
  next
    case False
    have "map_of es' n = map_of src n"
      using that False by (intro a) (auto simp: set_diff_files)
    with that False show ?thesis by simp
  qed
  have 5: "map_of es' n = Some y"
    if "map_of src n = Some x" "map_of rpl n = Some y" "stat_kind x \<noteq> stat_kind y" for n x y
  proof -
    have "map_of es' n = map_of rpl n"
      using that
      by (intro c) (auto simp: set_left_only set_diff_files set_common_dirs set_right_only isdir_iff)
    with that show ?thesis by simp
  qed
  have 6: "\<exists>r'' jd. sync_trees os (os_path_join source n) (os_path_join replica n)
                              (Dir sd) (Dir rd) = ((r'', jd), None)
                         \<and> map_of es' n = Some r''"
    if "listed n" "map_of src n = Some (Dir sd)" "map_of rpl n = Some (Dir rd)" for n sd rd
  proof -
    have "n \<in> set (common_dirs src rpl)" using that by (simp add: set_common_dirs)
    from d[OF this] that show ?thesis by auto
  qed
  from r' 1 2 3 4 5 6 show ?thesis by blast
qed

lemma sync_any_pointwise:
  assumes "sync_trees os source replica (Dir src) (Dir rpl) = ((r', j), e)"
  shows "\<exists>es'. r' = Dir es'
     \<and> (\<forall>n. \<not> listed n \<longrightarrow> map_of es' n = map_of rpl n)
     \<and> (\<forall>n x y. map_of src n = Some x \<longrightarrow> map_of rpl n = Some y
            \<longrightarrow> stat_kind x \<noteq> stat_kind y \<longrightarrow> map_of es' n = Some y)
     \<and> (\<forall>n x y. map_of src n = Some x \<longrightarrow> map_of rpl n = Some y
            \<longrightarrow> cmp x y \<longrightarrow> map_of es' n = Some y)
     \<and> (\<forall>n sd rd. map_of src n = Some (Dir sd) \<longrightarrow> map_of rpl n = Some (Dir rd)
            \<longrightarrow> map_of es' n = Some (Dir rd) \<or>
               (\<exists>r'' jd e'. sync_trees os (os_path_join source n) (os_path_join replica n)
                              (Dir sd) (Dir rd) = ((r'', jd), e')
                         \<and> map_of es' n = Some r''))"
proof -
  from sync_any[OF assms] obtain es' where
    r': "r' = Dir es'"
    and c: "\<And>n. n \<notin> set (left_only src rpl) \<union> set (diff_files src rpl)
               \<union> set (common_dirs src rpl) \<union> set (right_only src rpl)
            \<Longrightarrow> map_of es' n = map_of rpl n"
    and d: "\<And>d. d \<in> set (common_dirs src rpl) \<Longrightarrow> map_of es' d = map_of rpl d \<or> (\<exists>s r r'' jd e'.
            map_of src d = Some s \<and> map_of rpl d = Some r
          \<and> sync_trees os (os_path_join source d) (os_path_join replica d) s r
               = ((r'', jd), e')
          \<and> map_of es' d = Some r'')"
    by blast
  have 1: "map_of es' n = map_of rpl n" if "\<not> listed n" for n
    using that by (intro c) (auto simp: set_left_only set_diff_files set_common_dirs set_right_only)
  have 2: "map_of es' n = Some y"
    if "map_of src n = Some x" "map_of rpl n = Some y" "stat_kind x \<noteq> stat_kind y" for n x y
  proof -
    have "map_of es' n = map_of rpl n"
      using that
      by (intro c) (auto simp: set_left_only set_diff_files set_common_dirs set_right_only isdir_iff)
    with that show ?thesis by simp
  qed
  have 3: "map_of es' n = Some y"
    if "map_of src n = Some x" "map_of rpl n = Some y" "cmp x y" for n x y
  proof -
    have "map_of es' n = map_of rpl n"
      using that cmp_regular[OF that(3)]
      by (intro c) (auto simp: set_left_only set_diff_files set_common_dirs set_right_only isdir_iff)
    with that show ?thesis by simp
  qed
  have 4: "map_of es' n = Some (Dir rd) \<or>
               (\<exists>r'' jd e'. sync_trees os (os_path_join source n) (os_path_join replica n)
                              (Dir sd) (Dir rd) = ((r'', jd), e')
                         \<and> map_of es' n = Some r'')"
    if "map_of src n = Some (Dir sd)" "map_of rpl n = Some (Dir rd)" for n sd rd
  proof (cases "listed n")
    case True
    then have "n \<in> set (common_dirs src rpl)" using that by (simp add: set_common_dirs)
    from d[OF this] that show ?thesis by auto
  next
    case False
    with 1 that show ?thesis by simp
  qed
  from r' 1 2 3 4 show ?thesis by blast
qed


lemma lookup_Cons_Some:
  assumes "lookup t (n # q) = Some z"
  obtains es c where "t = Dir es" "map_of es n = Some c" "lookup c q = Some z"
  using assms by (cases t) (auto split: option.splits)

lemma lookup_nonempty_Dir:
  assumes "lookup c q = Some z" "q \<noteq> []"
  shows "\<exists>es. c = Dir es"
  using assms by (cases c; cases q) auto

lemma sync_untouched:
  assumes "sync_trees os source replica s r = ((r', j), e)"
    and "lookup s p = Some x" and "lookup r p = Some y" and "p \<noteq> []"
    and "stat_kind x \<noteq> stat_kind y \<or> cmp x y"
  shows "lookup r' p = Some y"
  using assms
proof (induction p arbitrary: s r r' j e source replica)
  case Nil
  then show ?case by simp
next
  case (Cons n q)
  from Cons.prems(2) obtain src sc where
    s: "s = Dir src" "map_of src n = Some sc" "lookup sc q = Some x"
    by (rule lookup_Cons_Some)
  from Cons.prems(3) obtain rpl rc where
    r: "r = Dir rpl" "map_of rpl n = Some rc" "lookup rc q = Some y"
    by (rule lookup_Cons_Some)
  from sync_any_pointwise[OF Cons.prems(1)[unfolded s(1) r(1)]] obtain es' where
    r': "r' = Dir es'"
    and mis: "\<And>n x y. map_of src n = Some x \<Longrightarrow> map_of rpl n = Some y
            \<Longrightarrow> stat_kind x \<noteq> stat_kind y \<Longrightarrow> map_of es' n = Some y"
    and same: "\<And>n x y. map_of src n = Some x \<Longrightarrow> map_of rpl n = Some y
            \<Longrightarrow> cmp x y \<Longrightarrow> map_of es' n = Some y"
    and dirs: "\<And>n sd rd. map_of src n = Some (Dir sd) \<Longrightarrow> map_of rpl n = Some (Dir rd)
            \<Longrightarrow> map_of es' n = Some (Dir rd) \<or>
               (\<exists>r'' jd e'. sync_trees os (os_path_join source n) (os_path_join replica n)
                              (Dir sd) (Dir rd) = ((r'', jd), e')
                         \<and> map_of es' n = Some r'')"
    by blast
  show ?case
  proof (cases "q = []")
    case True
    with s r have "sc = x" "rc = y" by auto
    with s r Cons.prems(5) mis same have "map_of es' n = Some y" by blast
    with True r' show ?thesis by simp
  next
    case False
    from lookup_nonempty_Dir[OF s(3) False] obtain sd where sd: "sc = Dir sd" by blast
    from lookup_nonempty_Dir[OF r(3) False] obtain rd where rd: "rc = Dir rd" by blast
    from dirs[OF s(2)[unfolded sd] r(2)[unfolded rd]]
    show ?thesis
    proof
      assume "map_of es' n = Some (Dir rd)"
      with r' r(3) rd show ?thesis by simp
    next
      assume "\<exists>r'' jd e'. sync_trees os (os_path_join source n) (os_path_join replica n)
                              (Dir sd) (Dir rd) = ((r'', jd), e')
                         \<and> map_of es' n = Some r''"
      then obtain r'' jd e' where
        c: "sync_trees os (os_path_join source n) (os_path_join replica n)
                              (Dir sd) (Dir rd) = ((r'', jd), e')" "map_of es' n = Some r''"
        by blast
      have "lookup r'' q = Some y"
        using Cons.IH[OF c(1) _ _ False Cons.prems(5)] s(3) r(3) sd rd by simp
      with r' c(2) show ?thesis by simp
    qed
  qed
qed

lemma sync_removes:
  assumes "sync_trees os source replica s r = ((r', j), None)"
    and "lookup s q = Some (Dir sd)" and "map_of sd x = None"
    and "lookup r (q @ x # rest) \<noteq> None" and "\<forall>n\<in>set (q @ [x]). listed n"
  shows "lookup r' (q @ x # rest) = None"
  using assms
proof (induction q arbitrary: s r r' j source replica)
  case Nil
  then have s: "s = Dir sd" by simp
  from Nil.prems(4) obtain z where "lookup r (x # rest) = Some z" by auto
  then obtain rpl rc where r: "r = Dir rpl" "map_of rpl x = Some rc"
    by (rule lookup_Cons_Some[where t=r and n=x and q=rest]) auto
  from sync_success_pointwise[OF Nil.prems(1)[unfolded s r(1)]] obtain es' where
    r': "r' = Dir es'"
    and gone: "\<And>n. listed n \<Longrightarrow> map_of sd n = None \<Longrightarrow> map_of es' n = None"
    by blast
  have "map_of es' x = None" using gone Nil.prems(3,5) by simp
  with r' show ?case by simp
next
  case (Cons n q)
  from Cons.prems(2) obtain src sc where
    s: "s = Dir src" "map_of src n = Some sc" "lookup sc q = Some (Dir sd)"
    by (rule lookup_Cons_Some)
  from Cons.prems(4) obtain z where "lookup r (n # (q @ x # rest)) = Some z" by auto
  then obtain rpl rc where r: "r = Dir rpl" "map_of rpl n = Some rc" "lookup rc (q @ x # rest) = Some z"
    by (rule lookup_Cons_Some)
  have "\<exists>es. sc = Dir es" using s(3) by (cases q; cases sc) auto
  then obtain sd' where sd': "sc = Dir sd'" by blast
  from lookup_nonempty_Dir[OF r(3)] obtain rd where rd: "rc = Dir rd" by auto
  from sync_success_pointwise[OF Cons.prems(1)[unfolded s(1) r(1)]] obtain es' where
    r': "r' = Dir es'"
    and dirs: "\<And>n sd rd. listed n \<Longrightarrow> map_of src n = Some (Dir sd) \<Longrightarrow> map_of rpl n = Some (Dir rd)
            \<Longrightarrow> (\<exists>r'' jd. sync_trees os (os_path_join source n) (os_path_join replica n)
                              (Dir sd) (Dir rd) = ((r'', jd), None)
                         \<and> map_of es' n = Some r'')"
    by blast
  have ln: "listed n" using Cons.prems(5) by simp
  from dirs[OF ln s(2)[unfolded sd'] r(2)[unfolded rd]] obtain r'' jd where
    c: "sync_trees os (os_path_join source n) (os_path_join replica n)
                              (Dir sd') (Dir rd) = ((r'', jd), None)" "map_of es' n = Some r''"
    by blast
  have "lookup r'' (q @ x # rest) = None"
    using Cons.IH[OF c(1) _ Cons.prems(3)] s(3) r(3) sd' rd Cons.prems(5) by simp
  with r' c(2) show ?case by simp
qed

declare every_level.simps(1) [simp del]

lemma every_level_Dir:
  "every_level P (Dir src) (Dir rpl) \<longleftrightarrow>
     P src rpl \<and>
     (\<forall>n sd rd. listed n \<longrightarrow> map_of src n = Some (Dir sd) \<longrightarrow> map_of rpl n = Some (Dir rd)
        \<longrightarrow> every_level P (Dir sd) (Dir rd))"
proof -
  have "list_all (\<lambda>d. case map_of src d of
                      None \<Rightarrow> False
                    | Some s \<Rightarrow> (case map_of rpl d of None \<Rightarrow> False | Some r \<Rightarrow> every_level P s r))
        (common_dirs src rpl)
     \<longleftrightarrow> (\<forall>n sd rd. listed n \<longrightarrow> map_of src n = Some (Dir sd) \<longrightarrow> map_of rpl n = Some (Dir rd)
        \<longrightarrow> every_level P (Dir sd) (Dir rd))"
    unfolding list_all_iff set_common_dirs isdir_iff
    by (auto simp del: every_level.simps)
  then show ?thesis by (simp only: every_level.simps)
qed

lemma every_level_is_Dir:
  assumes "every_level P s r"
  obtains src rpl where "s = Dir src" "r = Dir rpl"
  using assms by (cases s; cases r) auto

lemma child_smaller: "map_of es n = Some c \<Longrightarrow> size c < size (Dir es)"
  by (auto dest: size_child)

lemma every_level_DirI:
  assumes "P src rpl"
    and "\<And>n sd rd. listed n \<Longrightarrow> map_of src n = Some (Dir sd) \<Longrightarrow> map_of rpl n = Some (Dir rd)
        \<Longrightarrow> every_level P (Dir sd) (Dir rd)"
  shows "every_level P (Dir src) (Dir rpl)"
  using assms by (subst every_level_Dir) blast

lemma every_level_DirD:
  assumes "every_level P (Dir src) (Dir rpl)"
  shows "P src rpl"
    and "\<And>n sd rd. listed n \<Longrightarrow> map_of src n = Some (Dir sd) \<Longrightarrow> map_of rpl n = Some (Dir rd)
        \<Longrightarrow> every_level P (Dir sd) (Dir rd)"
  using assms by (subst (asm) every_level_Dir, blast)+

lemma every_level_refl:
  assumes "\<And>es. P es es"
  shows "every_level P (Dir es) (Dir es)"
proof (induction "Dir es" arbitrary: es rule: measure_induct_rule[of size])
  case less
  show ?case
  proof (rule every_level_DirI)
    show "P es es" by (rule assms)
  next
    fix n sd rd
    assume a: "map_of es n = Some (Dir sd)" "map_of es n = Some (Dir rd)"
    then have "rd = sd" by simp
    moreover have "every_level P (Dir sd) (Dir sd)"
      by (rule less) (rule child_smaller[OF a(1)])
    ultimately show "every_level P (Dir sd) (Dir rd)" by simp
  qed
qed

lemma left_only_empty:
  "left_only src rpl = [] \<longleftrightarrow> (\<forall>n. listed n \<longrightarrow> map_of src n \<noteq> None \<longrightarrow> map_of rpl n \<noteq> None)"
proof -
  have "left_only src rpl = [] \<longleftrightarrow> set (left_only src rpl) = {}" by simp
  also have "\<dots> \<longleftrightarrow> (\<forall>n. listed n \<longrightarrow> map_of src n \<noteq> None \<longrightarrow> map_of rpl n \<noteq> None)"
    unfolding set_left_only Collect_empty_eq by auto
  finally show ?thesis .
qed

lemma right_only_empty:
  "right_only src rpl = [] \<longleftrightarrow> (\<forall>n. listed n \<longrightarrow> map_of rpl n \<noteq> None \<longrightarrow> map_of src n \<noteq> None)"
proof -
  have "right_only src rpl = [] \<longleftrightarrow> set (right_only src rpl) = {}" by simp
  also have "\<dots> \<longleftrightarrow> (\<forall>n. listed n \<longrightarrow> map_of rpl n \<noteq> None \<longrightarrow> map_of src n \<noteq> None)"
    unfolding set_right_only Collect_empty_eq by auto
  finally show ?thesis .
qed

lemma diff_files_empty:
  "diff_files src rpl = [] \<longleftrightarrow>
     (\<forall>n x y. listed n \<longrightarrow> map_of src n = Some x \<longrightarrow> map_of rpl n = Some y
           \<longrightarrow> stat_kind x = S_IFREG \<longrightarrow> stat_kind y = S_IFREG \<longrightarrow> cmp x y)"
proof -
  have "diff_files src rpl = [] \<longleftrightarrow> set (diff_files src rpl) = {}" by simp
  also have "\<dots> \<longleftrightarrow> (\<forall>n x y. listed n \<longrightarrow> map_of src n = Some x \<longrightarrow> map_of rpl n = Some y
           \<longrightarrow> stat_kind x = S_IFREG \<longrightarrow> stat_kind y = S_IFREG \<longrightarrow> cmp x y)"
    unfolding set_diff_files Collect_empty_eq by auto
  finally show ?thesis .
qed

lemma common_funny_empty:
  "common_funny src rpl = [] \<longleftrightarrow>
     (\<forall>n x y. listed n \<longrightarrow> map_of src n = Some x \<longrightarrow> map_of rpl n = Some y
        \<longrightarrow> stat_kind x = stat_kind y)"
proof -
  have "common_funny src rpl = [] \<longleftrightarrow> set (common_funny src rpl) = {}" by simp
  also have "\<dots> \<longleftrightarrow> (\<forall>n x y. listed n \<longrightarrow> map_of src n = Some x \<longrightarrow> map_of rpl n = Some y
        \<longrightarrow> stat_kind x = stat_kind y)"
    unfolding set_common_funny Collect_empty_eq by auto
  finally show ?thesis .
qed

lemmas no_differences_iff = no_differences_def left_only_empty right_only_empty diff_files_empty

lemmas no_type_mismatch_iff = no_type_mismatch_def common_funny_empty

lemma no_differences_refl: "no_differences es es"
  unfolding no_differences_iff by (auto intro: cmp_refl)

lemma no_type_mismatch_refl: "no_type_mismatch es es"
  unfolding no_type_mismatch_iff by auto

lemma sync_File_raises:
  "sync_trees os source replica (File c t m) r \<noteq> ((r', j), None)"
  "sync_trees os source replica s (File c t m) \<noteq> ((r', j), None)"
  by (cases s; simp)+

lemma sync_success_Dir:
  assumes "sync_trees os source replica s r = ((r', j), None)"
  obtains src rpl where "s = Dir src" "r = Dir rpl"
  using assms sync_File_raises by (cases s; cases r) auto


lemma sync_result_Dir:
  assumes "sync_trees os source replica (Dir src) (Dir rpl) = ((r', j), e)"
  shows "\<exists>es'. r' = Dir es'"
  using sync_any_pointwise[OF assms] by blast

lemma sync_success_entry:
  assumes "sync_trees os source replica (Dir src) (Dir rpl) = ((Dir es', j), None)"
    and "listed n" and "map_of src n = Some x"
  shows "(map_of rpl n = None \<and> map_of es' n = Some x)
       \<or> (\<exists>y. map_of rpl n = Some y \<and> stat_kind x \<noteq> stat_kind y \<and> map_of es' n = Some y)
       \<or> (\<exists>y. map_of rpl n = Some y \<and> stat_kind x = S_IFREG \<and> stat_kind y = S_IFREG
              \<and> map_of es' n = Some (if cmp x y then y else x))
       \<or> (\<exists>sd rd r'' jd. x = Dir sd \<and> map_of rpl n = Some (Dir rd)
              \<and> sync_trees os (os_path_join source n) (os_path_join replica n)
                    (Dir sd) (Dir rd) = ((r'', jd), None)
              \<and> map_of es' n = Some r'')"
proof -
  from sync_success_pointwise[OF assms(1)] have
    p3: "\<And>n. listed n \<Longrightarrow> map_of rpl n = None \<Longrightarrow> map_of es' n = map_of src n"
    and p4: "\<And>n x y. listed n \<Longrightarrow> map_of src n = Some x \<Longrightarrow> map_of rpl n = Some y
            \<Longrightarrow> stat_kind x = S_IFREG \<Longrightarrow> stat_kind y = S_IFREG
            \<Longrightarrow> map_of es' n = (if cmp x y then Some y else Some x)"
    and p5: "\<And>n x y. map_of src n = Some x \<Longrightarrow> map_of rpl n = Some y
            \<Longrightarrow> stat_kind x \<noteq> stat_kind y \<Longrightarrow> map_of es' n = Some y"
    and p6: "\<And>n sd rd. listed n \<Longrightarrow> map_of src n = Some (Dir sd) \<Longrightarrow> map_of rpl n = Some (Dir rd)
            \<Longrightarrow> (\<exists>r'' jd. sync_trees os (os_path_join source n) (os_path_join replica n)
                              (Dir sd) (Dir rd) = ((r'', jd), None)
                         \<and> map_of es' n = Some r'')"
    by auto
  show ?thesis
  proof (cases "map_of rpl n")
    case None
    with p3[OF assms(2) None] assms(3) show ?thesis by simp
  next
    case (Some y)
    show ?thesis
    proof (cases "stat_kind x = stat_kind y")
      case False
      with p5[OF assms(3) Some False] Some show ?thesis by simp
    next
      case True
      show ?thesis
      proof (cases "stat_kind x")
        case S_IFREG
        with True have "stat_kind y = S_IFREG" by simp
        with p4[OF assms(2,3) Some S_IFREG this] Some S_IFREG show ?thesis by auto
      next
        case S_IFDIR
        with True obtain sd rd where d: "x = Dir sd" "y = Dir rd"
          by (metis stat_kind_dir)
        from p6[OF assms(2) assms(3)[unfolded d] Some[unfolded d]] d Some show ?thesis by auto
      qed
    qed
  qed
qed

lemma sync_no_differences:
  assumes "sync_trees os source replica s r = ((r', j), None)"
  shows "every_level no_differences s r'"
  using assms
proof (induction s arbitrary: r r' j source replica rule: measure_induct_rule[of size])
  case (less s)
  from less.prems obtain src rpl where s: "s = Dir src" and r: "r = Dir rpl"
    by (rule sync_success_Dir)
  from sync_result_Dir[OF less.prems[unfolded s r]] obtain es' where r': "r' = Dir es'" by blast
  note run = less.prems[unfolded s r r']
  note entry = sync_success_entry[OF run]
  from sync_success_pointwise[OF run] have
    p2: "\<And>n. listed n \<Longrightarrow> map_of src n = None \<Longrightarrow> map_of es' n = None"
    by auto
  have left: "map_of es' n \<noteq> None" if "listed n" "map_of src n \<noteq> None" for n
  proof -
    from that obtain x where x: "map_of src n = Some x" by auto
    from entry[OF that(1) x] show ?thesis by auto
  qed
  have right: "map_of src n \<noteq> None" if "listed n" "map_of es' n \<noteq> None" for n
    using p2[OF that(1)] that(2) by auto
  have diff: "cmp x y" if "listed n" "map_of src n = Some x" "map_of es' n = Some y"
    "stat_kind x = S_IFREG" "stat_kind y = S_IFREG" for n x y
  proof -
    from entry[OF that(1,2)] consider
      "map_of es' n = Some x"
      | z where "stat_kind x \<noteq> stat_kind z" "map_of es' n = Some z"
      | z where "map_of es' n = Some (if cmp x z then z else x)"
      | sd where "x = Dir sd"
      by blast
    then show ?thesis
    proof cases
      case 1
      with that show ?thesis by (auto intro: cmp_refl)
    next
      case 2
      with that show ?thesis by auto
    next
      case 3
      with that show ?thesis by (auto intro: cmp_refl split: if_splits)
    next
      case 4
      with that show ?thesis by auto
    qed
  qed
  have sub: "every_level no_differences (Dir sd) (Dir rd)"
    if "listed n" "map_of src n = Some (Dir sd)" "map_of es' n = Some (Dir rd)" for n sd rd
  proof -
    from entry[OF that(1,2)] consider
      "map_of es' n = Some (Dir sd)"
      | z where "stat_kind (Dir sd) \<noteq> stat_kind z" "map_of es' n = Some z"
      | "stat_kind (Dir sd) = S_IFREG"
      | rd0 r'' jd where "sync_trees os (os_path_join source n) (os_path_join replica n)
                    (Dir sd) (Dir rd0) = ((r'', jd), None)" "map_of es' n = Some r''"
      by blast
    then show ?thesis
    proof cases
      case 1
      with that have "rd = sd" by simp
      then show ?thesis using every_level_refl[of no_differences sd] no_differences_refl by simp
    next
      case 2
      with that show ?thesis by auto
    next
      case 3
      then show ?thesis by simp
    next
      case 4
      have "size (Dir sd) < size s" unfolding s by (rule child_smaller[OF that(2)])
      from less.IH[OF this 4(1)] 4(2) that(3) show ?thesis by simp
    qed
  qed
  show ?case unfolding s r'
  proof (rule every_level_DirI)
    show "no_differences src es'"
      unfolding no_differences_iff using left right diff by blast
  qed (rule sub)
qed


lemma sync_no_type_mismatch:
  assumes "sync_trees os source replica s r = ((r', j), None)"
    and "every_level no_type_mismatch s r"
  shows "every_level no_type_mismatch s r'"
  using assms
proof (induction s arbitrary: r r' j source replica rule: measure_induct_rule[of size])
  case (less s)
  from less.prems(1) obtain src rpl where s: "s = Dir src" and r: "r = Dir rpl"
    by (rule sync_success_Dir)
  from sync_result_Dir[OF less.prems(1)[unfolded s r]] obtain es' where r': "r' = Dir es'" by blast
  note run = less.prems(1)[unfolded s r r']
  note entry = sync_success_entry[OF run]
  note before = every_level_DirD[OF less.prems(2)[unfolded s r]]
  have kinds: "stat_kind x = stat_kind y"
    if "listed n" "map_of src n = Some x" "map_of rpl n = Some y" for n x y
    using before(1) that unfolding no_type_mismatch_iff by blast
  have mm: "stat_kind x = stat_kind y"
    if "listed n" "map_of src n = Some x" "map_of es' n = Some y" for n x y
  proof -
    from entry[OF that(1,2)] consider
      "map_of es' n = Some x"
      | z where "map_of rpl n = Some z" "stat_kind x \<noteq> stat_kind z"
      | z where "stat_kind x = S_IFREG" "stat_kind z = S_IFREG"
          "map_of es' n = Some (if cmp x z then z else x)"
      | sd rd0 r'' jd where "x = Dir sd" "sync_trees os (os_path_join source n)
            (os_path_join replica n) (Dir sd) (Dir rd0) = ((r'', jd), None)"
          "map_of es' n = Some r''"
      by blast
    then show ?thesis
    proof cases
      case 1
      with that show ?thesis by simp
    next
      case 2
      with kinds[OF that(1,2) 2(1)] show ?thesis by simp
    next
      case 3
      with that show ?thesis by (auto split: if_splits)
    next
      case 4
      from sync_result_Dir[OF 4(2)] 4(1,3) that(3) show ?thesis by auto
    qed
  qed
  have sub: "every_level no_type_mismatch (Dir sd) (Dir rd)"
    if "listed n" "map_of src n = Some (Dir sd)" "map_of es' n = Some (Dir rd)" for n sd rd
  proof -
    from entry[OF that(1,2)] consider
      "map_of es' n = Some (Dir sd)"
      | z where "stat_kind (Dir sd) \<noteq> stat_kind z" "map_of es' n = Some z"
      | "stat_kind (Dir sd) = S_IFREG"
      | rd0 r'' jd where "map_of rpl n = Some (Dir rd0)"
          "sync_trees os (os_path_join source n) (os_path_join replica n)
                    (Dir sd) (Dir rd0) = ((r'', jd), None)" "map_of es' n = Some r''"
      by blast
    then show ?thesis
    proof cases
      case 1
      with that have "rd = sd" by simp
      then show ?thesis
        using every_level_refl[of no_type_mismatch sd] no_type_mismatch_refl by simp
    next
      case 2
      with that show ?thesis by auto
    next
      case 3
      then show ?thesis by simp
    next
      case 4
      have sm: "size (Dir sd) < size s" unfolding s by (rule child_smaller[OF that(2)])
      have "every_level no_type_mismatch (Dir sd) (Dir rd0)"
        by (rule before(2)[OF that(1,2) 4(1)])
      from less.IH[OF sm 4(2) this] 4(3) that(3) show ?thesis by simp
    qed
  qed
  show ?case unfolding s r'
  proof (rule every_level_DirI)
    show "no_type_mismatch src es'"
      unfolding no_type_mismatch_iff using mm by blast
  qed (rule sub)
qed

lemma for_loop_id:
  assumes "\<And>x. x \<in> set xs \<Longrightarrow> f x s = (s, None)"
  shows "for_loop f xs s = (s, None)"
  using assms by (induction xs) auto

lemma sync_noop:
  assumes "every_level no_differences s r"
  shows "sync_trees os source replica s r = ((r, []), None)"
  using assms
proof (induction s arbitrary: r source replica rule: measure_induct_rule[of size])
  case (less s)
  from less.prems obtain src rpl where s: "s = Dir src" and r: "r = Dir rpl"
    by (rule every_level_is_Dir)
  note lvl = every_level_DirD[OF less.prems[unfolded s r]]
  from lvl(1) have empty: "left_only src rpl = []" "diff_files src rpl = []" "right_only src rpl = []"
    by (simp_all add: no_differences_def)
  have step: "subdir_step os source replica src d (rpl, []) = ((rpl, []), None)"
    if "d \<in> set (common_dirs src rpl)" for d
  proof -
    from that obtain sd rd where d: "listed d" "map_of src d = Some (Dir sd)"
      "map_of rpl d = Some (Dir rd)"
      by (auto simp: set_common_dirs isdir_iff)
    have sm: "size (Dir sd) < size s" unfolding s by (rule child_smaller[OF d(2)])
    have "sync_trees os (os_path_join source d) (os_path_join replica d) (Dir sd) (Dir rd)
            = ((Dir rd, []), None)"
      by (rule less.IH[OF sm lvl(2)[OF d]])
    then show ?thesis using d by (simp add: subdir_step_def AList.update_triv)
  qed
  have "for_loop (subdir_step os source replica src) (common_dirs src rpl) (rpl, [])
          = ((rpl, []), None)"
    by (rule for_loop_id) (rule step)
  then show ?case unfolding s r sync_trees_Dir empty by simp
qed

lemma every_level_conj:
  "every_level (\<lambda>a b. P a b \<and> Q a b) s r \<longleftrightarrow> every_level P s r \<and> every_level Q s r"
proof (induction s arbitrary: r rule: measure_induct_rule[of size])
  case (less s)
  show ?case
  proof (cases s)
    case (File c t m)
    then show ?thesis by simp
  next
    case (Dir src)
    show ?thesis
    proof (cases r)
      case (File c t m)
      with Dir show ?thesis by simp
    next
      case r: (Dir rpl)
      have ih: "every_level (\<lambda>a b. P a b \<and> Q a b) (Dir sd) (Dir rd)
             \<longleftrightarrow> every_level P (Dir sd) (Dir rd) \<and> every_level Q (Dir sd) (Dir rd)"
        if "map_of src n = Some (Dir sd)" for n sd rd
        by (rule less) (use that Dir in \<open>auto dest: child_smaller\<close>)
      show ?thesis unfolding Dir r
        by (subst (1 2 3) every_level_Dir) (use ih in blast)
    qed
  qed
qed

lemma sync_converges:
  assumes "sync_trees os source replica s r = ((r', j), None)"
  shows "every_level no_differences s r'"
    and "every_level no_type_mismatch s r \<Longrightarrow> converged s r'"
  using sync_no_differences[OF assms] sync_no_type_mismatch[OF assms]
  by (simp_all add: converged_def every_level_conj)

lemma sync_twice:
  assumes "sync_trees os source replica s r = ((r', j), None)"
  shows "sync_trees os' source' replica' s r' = ((r', []), None)"
  by (rule sync_noop) (rule sync_no_differences[OF assms])

lemma copy_step_ok:
  assumes "map_of src y \<noteq> None" and "\<not> isdir (map_of es y)"
    and "isdir (map_of src y) \<Longrightarrow> map_of es y = None"
    and "\<not> refuses os (copy_call source replica src y)"
  shows "\<exists>es1 j1. copy_step os source replica src y (es, j) = ((es1, j1), None)
           \<and> map_of es1 = (map_of es)(y := map_of src y) \<and> length j1 = Suc (length j)"
proof -
  obtain es1 j1 e where st: "copy_step os source replica src y (es, j) = ((es1, j1), e)"
    by (metis surj_pair)
  have "e = None"
    using st assms
    by (auto simp: copy_step_def copytree_def copy2_def Let_def copy_call_def
        split: if_splits option.splits prod.splits node.splits)
  with st copy_step_success[OF _ assms(2)] show ?thesis by blast
qed

lemma copy_step_refused:
  assumes "map_of src x \<noteq> None" and "isdir (map_of src x) \<Longrightarrow> map_of es x = None"
    and "refuses os (copy_call source replica src x)"
  shows "copy_step os source replica src x (es, j)
           = ((upd x (leaves os (copy_call source replica src x) (map_of src x) (map_of es x)) es,
               j),
              Some (OSError (copy_call source replica src x)))"
  using assms
  by (auto simp: copy_step_def copytree_def copy2_def Let_def copy_call_def
        split: if_splits option.splits prod.splits node.splits)

lemma copy_item_facts:
  assumes "y \<in> set (left_only src rpl @ diff_files src rpl)"
  shows "map_of src y \<noteq> None" and "\<not> isdir (map_of rpl y)"
    and "isdir (map_of src y) \<Longrightarrow> map_of rpl y = None"
  using assms by (auto simp: set_left_only set_diff_files isdir_iff)

lemma copy_loop_prefix:
  assumes "distinct xs" and "set xs \<subseteq> set (left_only src rpl @ diff_files src rpl)"
    and "\<forall>y\<in>set xs. \<not> refuses os (copy_call source replica src y)"
    and "\<forall>y\<in>set xs. map_of es y = map_of rpl y"
  shows "\<exists>es1 j1. for_loop (copy_step os source replica src) xs (es, j) = ((es1, j1), None)
           \<and> map_of es1 = (\<lambda>n. if n \<in> set xs then map_of src n else map_of es n)
           \<and> length j1 = length j + length xs"
  using assms
proof (induction xs arbitrary: es j)
  case Nil
  then show ?case by simp
next
  case (Cons y xs)
  have y: "y \<in> set (left_only src rpl @ diff_files src rpl)" using Cons.prems(2) by simp
  have ey: "map_of es y = map_of rpl y" using Cons.prems(4) by simp
  from copy_step_ok[of src y es os source replica j] copy_item_facts[OF y] ey Cons.prems(3)
  obtain es1 j1 where
    st: "copy_step os source replica src y (es, j) = ((es1, j1), None)"
      "map_of es1 = (map_of es)(y := map_of src y)" "length j1 = Suc (length j)"
    by auto
  have "\<forall>z\<in>set xs. map_of es1 z = map_of rpl z"
    using st(2) Cons.prems(1,4) by auto
  from Cons.IH[OF _ _ _ this, of j1] Cons.prems(1,2,3)
  obtain es2 j2 where
    rest: "for_loop (copy_step os source replica src) xs (es1, j1) = ((es2, j2), None)"
      "map_of es2 = (\<lambda>n. if n \<in> set xs then map_of src n else map_of es1 n)"
      "length j2 = length j1 + length xs"
    by auto
  have "map_of es2 = (\<lambda>n. if n \<in> set (y # xs) then map_of src n else map_of es n)"
    using rest(2) st(2) by auto
  with st rest show ?case by simp
qed

lemma sync_copy_failure:
  assumes "left_only src rpl @ diff_files src rpl = xs @ x # ys"
    and "\<forall>y\<in>set xs. \<not> refuses os (copy_call source replica src y)"
    and "refuses os (copy_call source replica src x)"
  shows "\<exists>es' j. sync_trees os source replica (Dir src) (Dir rpl)
             = ((Dir es', j), Some (OSError (copy_call source replica src x)))
         \<and> (\<forall>n. n \<noteq> x \<longrightarrow>
                map_of es' n = (if n \<in> set xs then map_of src n else map_of rpl n))
         \<and> map_of es' x
               = leaves os (copy_call source replica src x) (map_of src x) (map_of rpl x)
         \<and> length j = length xs"
proof -
  have d: "distinct (xs @ x # ys)" using copy_items_distinct[of src rpl] assms(1) by simp
  have sub: "set xs \<subseteq> set (left_only src rpl @ diff_files src rpl)" using assms(1) by auto
  from copy_loop_prefix[of xs src rpl os source replica rpl "[]"] d sub assms(2)
  obtain es1 j1 where
    pre: "for_loop (copy_step os source replica src) xs (rpl, []) = ((es1, j1), None)"
      "map_of es1 = (\<lambda>n. if n \<in> set xs then map_of src n else map_of rpl n)"
      "length j1 = length xs"
    by auto
  have x: "x \<in> set (left_only src rpl @ diff_files src rpl)" using assms(1) by simp
  have "x \<notin> set xs" using d by simp
  then have ex: "map_of es1 x = map_of rpl x" using pre(2) by simp
  let ?es = "upd x (leaves os (copy_call source replica src x) (map_of src x) (map_of es1 x)) es1"
  have "copy_step os source replica src x (es1, j1)
           = ((?es, j1), Some (OSError (copy_call source replica src x)))"
    using copy_item_facts[OF x] ex assms(3) by (intro copy_step_refused) auto
  then have "for_loop (copy_step os source replica src) (xs @ x # ys) (rpl, [])
           = ((?es, j1), Some (OSError (copy_call source replica src x)))"
    using pre(1) by (simp add: for_loop_append)
  then have "sync_trees os source replica (Dir src) (Dir rpl)
             = ((Dir ?es, j1), Some (OSError (copy_call source replica src x)))"
    unfolding sync_trees_Dir assms(1) by simp
  moreover have "\<forall>n. n \<noteq> x \<longrightarrow>
       map_of ?es n = (if n \<in> set xs then map_of src n else map_of rpl n)"
    using pre(2) by (simp add: map_of_upd)
  moreover have "map_of ?es x
      = leaves os (copy_call source replica src x) (map_of src x) (map_of rpl x)"
    using ex by (simp add: map_of_upd)
  ultimately show ?thesis using pre(3) by blast
qed

lemma remove_step_ok:
  assumes "map_of es x = map_of rpl x" and "map_of rpl x \<noteq> None"
    and "\<not> refuses os (remove_call replica rpl x)"
  shows "\<exists>es1 j1. remove_step os replica x (es, j) = ((es1, j1), None)
           \<and> map_of es1 = (map_of es)(x := None) \<and> length j1 = Suc (length j)"
proof -
  obtain es1 j1 e where st: "remove_step os replica x (es, j) = ((es1, j1), e)"
    by (metis surj_pair)
  have "e = None"
    using st assms
    by (auto simp: remove_step_def rmtree_def os_remove_def Let_def remove_call_def
        split: if_splits option.splits prod.splits)
  with st remove_step_success show ?thesis by blast
qed

lemma remove_step_refused:
  assumes "map_of es x = map_of rpl x" and "map_of rpl x \<noteq> None"
    and "refuses os (remove_call replica rpl x)"
  shows "\<exists>es'. remove_step os replica x (es, j)
           = ((es', j), Some (OSError (remove_call replica rpl x)))
         \<and> (\<forall>n. n \<noteq> x \<longrightarrow> map_of es' n = map_of es n)"
  using assms
  by (auto simp: remove_step_def rmtree_def os_remove_def Let_def remove_call_def map_of_upd
        split: if_splits option.splits prod.splits)

lemma remove_loop_prefix:
  assumes "distinct xs" and "set xs \<subseteq> set (right_only src rpl)"
    and "\<forall>y\<in>set xs. \<not> refuses os (remove_call replica rpl y)"
    and "\<forall>y\<in>set xs. map_of es y = map_of rpl y"
  shows "\<exists>es1 j1. for_loop (remove_step os replica) xs (es, j) = ((es1, j1), None)
           \<and> map_of es1 = (\<lambda>n. if n \<in> set xs then None else map_of es n)
           \<and> length j1 = length j + length xs"
  using assms
proof (induction xs arbitrary: es j)
  case Nil
  then show ?case by simp
next
  case (Cons y xs)
  have y: "map_of rpl y \<noteq> None" using Cons.prems(2) by (auto simp: set_right_only)
  have ey: "map_of es y = map_of rpl y" using Cons.prems(4) by simp
  from remove_step_ok[OF ey y, of os replica j] Cons.prems(3)
  obtain es1 j1 where
    st: "remove_step os replica y (es, j) = ((es1, j1), None)"
      "map_of es1 = (map_of es)(y := None)" "length j1 = Suc (length j)"
    by auto
  have "\<forall>z\<in>set xs. map_of es1 z = map_of rpl z"
    using st(2) Cons.prems(1,4) by auto
  from Cons.IH[OF _ _ _ this, of j1] Cons.prems(1,2,3)
  obtain es2 j2 where
    rest: "for_loop (remove_step os replica) xs (es1, j1) = ((es2, j2), None)"
      "map_of es2 = (\<lambda>n. if n \<in> set xs then None else map_of es1 n)"
      "length j2 = length j1 + length xs"
    by auto
  have "map_of es2 = (\<lambda>n. if n \<in> set (y # xs) then None else map_of es n)"
    using rest(2) st(2) by auto
  with st rest show ?case by simp
qed

lemma sync_remove_failure:
  assumes l1: "for_loop (copy_step os source replica src)
                 (left_only src rpl @ diff_files src rpl) (rpl, []) = (st1, None)"
    and l2: "for_loop (subdir_step os source replica src) (common_dirs src rpl) st1
                 = ((es2, j2), None)"
    and items: "right_only src rpl = xs @ x # ys"
    and ok: "\<forall>y\<in>set xs. \<not> refuses os (remove_call replica rpl y)"
    and bad: "refuses os (remove_call replica rpl x)"
  shows "\<exists>es' j. sync_trees os source replica (Dir src) (Dir rpl)
             = ((Dir es', j), Some (OSError (remove_call replica rpl x)))
         \<and> (\<forall>n. n \<noteq> x \<longrightarrow> map_of es' n = (if n \<in> set xs then None else map_of es2 n))
         \<and> length j = length j2 + length xs"
proof -
  obtain es1 j1 where st1: "st1 = (es1, j1)" by (cases st1)
  have d: "distinct (xs @ x # ys)" using distinct_dircmp(2)[of src rpl] items by simp
  have keep: "map_of es2 n = map_of rpl n" if "n \<in> set (right_only src rpl)" for n
  proof -
    have n: "n \<notin> set (left_only src rpl @ diff_files src rpl)" "n \<notin> set (common_dirs src rpl)"
      using that by (auto simp: set_right_only set_left_only set_diff_files set_common_dirs isdir_iff)
    from subdir_loop_frame[OF l2[unfolded st1] n(2)] copy_loop_frame[OF l1[unfolded st1] n(1)]
    show ?thesis by simp
  qed
  have sub: "set xs \<subseteq> set (right_only src rpl)" using items by auto
  have "\<forall>y\<in>set xs. map_of es2 y = map_of rpl y" using keep sub by auto
  from remove_loop_prefix[OF _ sub ok this, of j2] d
  obtain es3 j3 where
    pre: "for_loop (remove_step os replica) xs (es2, j2) = ((es3, j3), None)"
      "map_of es3 = (\<lambda>n. if n \<in> set xs then None else map_of es2 n)"
      "length j3 = length j2 + length xs"
    by auto
  have x: "x \<in> set (right_only src rpl)" using items by simp
  then have xr: "map_of rpl x \<noteq> None" by (auto simp: set_right_only)
  have "x \<notin> set xs" using d by simp
  then have ex: "map_of es3 x = map_of rpl x" using pre(2) keep[OF x] by simp
  from remove_step_refused[where os=os and rpl=rpl, OF ex xr bad, of j3]
  obtain es4 where
    r: "remove_step os replica x (es3, j3)
           = ((es4, j3), Some (OSError (remove_call replica rpl x)))"
       "\<forall>n. n \<noteq> x \<longrightarrow> map_of es4 n = map_of es3 n"
    by blast
  then have "for_loop (remove_step os replica) (xs @ x # ys) (es2, j2)
           = ((es4, j3), Some (OSError (remove_call replica rpl x)))"
    using pre(1) by (simp add: for_loop_append)
  then have "sync_trees os source replica (Dir src) (Dir rpl)
             = ((Dir es4, j3), Some (OSError (remove_call replica rpl x)))"
    unfolding sync_trees_Dir items[symmetric] using l1 l2 by (simp add: items)
  with pre(2,3) r(2) show ?thesis by auto
qed

section \<open>Paths: reading and writing the filesystem\<close>

lemma update_existing_commute:
  assumes "a \<noteq> b" and "map_of es a \<noteq> None"
  shows "AList.update a x (AList.update b y es) = AList.update b y (AList.update a x es)"
  using assms by (induction es) auto

lemma upd_update_commute:
  assumes "a \<noteq> b" and "map_of es a \<noteq> None"
  shows "AList.update a x (upd b v es) = upd b v (AList.update a x es)"
proof (cases v)
  case None
  have "AList.delete b (AList.update a x es) = AList.update a x (AList.delete b es)"
    using assms(1) by (simp add: AList.delete_update)
  with None show ?thesis by simp
next
  case (Some y)
  with update_existing_commute[OF assms] show ?thesis by simp
qed

lemma apart_sym: "apart p q \<Longrightarrow> apart q p"
  by (induction p q rule: apart.induct) auto

lemma apart_append: "apart p q \<Longrightarrow> apart (p @ p') (q @ q')"
  by (induction p q rule: apart.induct) auto

lemma apart_same_suffix: "apart p q \<Longrightarrow> apart (p @ [n]) (q @ [n])"
  by (rule apart_append)

lemma apart_left_append: "apart p q \<Longrightarrow> apart (p @ p') q"
  using apart_append[of p q p' "[]"] by simp

lemma lookup_put_same:
  assumes "lookup X p = Some w"
  shows "lookup (put p (Some v) X) p = Some v"
  using assms
proof (induction p arbitrary: X w)
  case Nil
  then show ?case by simp
next
  case (Cons n p)
  from Cons.prems obtain es c where X: "X = Dir es" "map_of es n = Some c" "lookup c p = Some w"
    by (cases X) (auto split: option.splits)
  show ?case
  proof (cases "p = []")
    case True
    with X show ?thesis by (simp add: AList.update_conv')
  next
    case False
    with X Cons.IH[OF X(3)] show ?thesis by (simp add: AList.update_conv')
  qed
qed

lemma lookup_put_parent:
  assumes "lookup X p = Some (Dir es)"
  shows "lookup (put (p @ [n]) v X) p = Some (Dir (upd n v es))"
  using assms
proof (induction p arbitrary: X)
  case Nil
  then show ?case by simp
next
  case (Cons a p)
  from Cons.prems obtain xs c where X: "X = Dir xs" "map_of xs a = Some c"
    "lookup c p = Some (Dir es)"
    by (cases X) (auto split: option.splits)
  from Cons.IH[OF X(3)] X show ?case by (simp add: AList.update_conv')
qed

lemma lookup_put_apart:
  assumes "apart p q"
  shows "lookup (put p v X) q = lookup X q"
  using assms
proof (induction p q arbitrary: X rule: apart.induct)
  case (1 q)
  then show ?case by simp
next
  case (2 a p)
  then show ?case by simp
next
  case (3 a p b q)
  show ?case
  proof (cases X)
    case (File c t m)
    then show ?thesis by simp
  next
    case (Dir es)
    show ?thesis
    proof (cases "a = b")
      case False
      then show ?thesis using Dir
        by (auto simp: map_of_upd AList.update_conv' split: option.splits)
    next
      case True
      with "3.prems" have ap: "apart p q" by simp
      then have "p \<noteq> []" by (cases p) auto
      with True Dir "3.IH"[OF ap] show ?thesis
        by (auto simp: AList.update_conv' split: option.splits)
    qed
  qed
qed

lemma put_put_same:
  assumes "lookup X p = Some u"
  shows "put p (Some v) (put p (Some w) X) = put p (Some v) X"
  using assms
proof (induction p arbitrary: X u)
  case Nil
  then show ?case by simp
next
  case (Cons n p)
  from Cons.prems obtain es c where X: "X = Dir es" "map_of es n = Some c" "lookup c p = Some u"
    by (cases X) (auto split: option.splits)
  show ?case
  proof (cases "p = []")
    case True
    with X show ?thesis by simp
  next
    case False
    with X Cons.IH[OF X(3)] show ?thesis by (simp add: AList.update_conv')
  qed
qed

lemma put_child_is_put_parent:
  assumes "lookup X p = Some (Dir es)"
  shows "put (p @ [n]) v X = put p (Some (Dir (upd n v es))) X"
  using assms
proof (induction p arbitrary: X)
  case Nil
  then show ?case by simp
next
  case (Cons a p)
  from Cons.prems obtain xs c where X: "X = Dir xs" "map_of xs a = Some c"
    "lookup c p = Some (Dir es)"
    by (cases X) (auto split: option.splits)
  show ?case
  proof (cases "p = []")
    case True
    with X show ?thesis by simp
  next
    case False
    with X Cons.IH[OF X(3)] show ?thesis by simp
  qed
qed

lemma put_unchanged:
  assumes "lookup X p = Some v"
  shows "put p (Some v) X = X"
  using assms
proof (induction p arbitrary: X)
  case Nil
  then show ?case by simp
next
  case (Cons n p)
  from Cons.prems obtain es c where X: "X = Dir es" "map_of es n = Some c" "lookup c p = Some v"
    by (cases X) (auto split: option.splits)
  show ?case
  proof (cases "p = []")
    case True
    with X show ?thesis by (simp add: AList.update_triv)
  next
    case False
    with X Cons.IH[OF X(3)] show ?thesis by (simp add: AList.update_triv)
  qed
qed

lemma erase_put_same: "p \<noteq> [] \<Longrightarrow> put p None (put p (Some v) X) = put p None X"
proof (induction p arbitrary: X)
  case Nil
  then show ?case by simp
next
  case (Cons n p)
  show ?case
  proof (cases X)
    case (File c t m)
    then show ?thesis by simp
  next
    case (Dir es)
    show ?thesis
    proof (cases "p = []")
      case True
      with Dir show ?thesis by (simp add: AList.delete_update_same)
    next
      case False
      with Dir Cons.IH show ?thesis
        by (auto simp: AList.update_conv' split: option.splits)
    qed
  qed
qed

lemma erase_put_commute:
  assumes "apart lp q"
  shows "put lp None (put q (Some v) X) = put q (Some v) (put lp None X)"
  using assms
proof (induction lp q arbitrary: X rule: apart.induct)
  case (1 q)
  then show ?case by simp
next
  case (2 a p)
  then show ?case by simp
next
  case (3 a p b q)
  show ?case
  proof (cases X)
    case (File c t m)
    then show ?thesis by simp
  next
    case (Dir es)
    show ?thesis
    proof (cases "a = b")
      case False
      then have ba: "b \<noteq> a" by simp
      have c1: "AList.update a x (AList.update b y es) = AList.update b y (AList.update a x es)"
        if "map_of es a = Some c" for x y c
        using update_existing_commute[OF False, of es x y] that by simp
      have c2: "AList.delete a (AList.update b y es) = AList.update b y (AList.delete a es)"
        for y
        by (rule AList.delete_update[OF ba])
      show ?thesis using Dir False
        by (auto simp: map_of_upd AList.update_conv' AList.delete_conv' c2
            split: option.splits intro: c1)
    next
      case True
      with "3.prems" have ap: "apart p q" by simp
      then have ne: "p \<noteq> []" "q \<noteq> []" by (cases p; cases q; auto)+
      with True Dir "3.IH"[OF ap] show ?thesis
        by (auto simp: AList.update_conv' split: option.splits)
    qed
  qed
qed

section \<open>The call on the filesystem, for directories that are apart\<close>

lemma lookup_append:
  "lookup X (p @ [n]) = (case lookup X p of Some (Dir es) \<Rightarrow> map_of es n | other \<Rightarrow> None)"
proof (induction p arbitrary: X)
  case Nil
  show ?case by (cases X) (auto split: option.splits)
next
  case (Cons a p)
  show ?case by (cases X) (auto simp: Cons.IH split: option.splits)
qed

lemma apart_nonempty: "apart p q \<Longrightarrow> p \<noteq> [] \<and> q \<noteq> []"
  by (cases p; cases q) auto

lemma emit_erase: "lp \<noteq> [] \<Longrightarrow> put lp None (emit lp r X) = put lp None X"
  by (auto simp: emit_def erase_put_same split: option.splits node.splits)

lemma emit_lookup: "apart lp q \<Longrightarrow> lookup (emit lp r X) q = lookup X q"
  by (auto simp: emit_def lookup_put_apart split: option.splits node.splits)

lemma fold_emit_erase: "lp \<noteq> [] \<Longrightarrow> put lp None (fold (emit lp) rs X) = put lp None X"
  by (induction rs arbitrary: X) (simp_all add: emit_erase)

lemma fold_emit_lookup: "apart lp q \<Longrightarrow> lookup (fold (emit lp) rs X) q = lookup X q"
  by (induction rs arbitrary: X) (simp_all add: emit_lookup)

lemma copy_step_journal:
  assumes "copy_step os source replica src file (es, j) = ((es', j'), e)"
  shows "\<exists>jd. j' = j @ jd \<and> copy_step os source replica src file (es, []) = ((es', jd), e)"
  using assms
  by (auto simp: copy_step_def Let_def logging_info_def split: if_splits prod.splits option.splits)

lemma remove_step_journal:
  assumes "remove_step os replica file (es, j) = ((es', j'), e)"
  shows "\<exists>jd. j' = j @ jd \<and> remove_step os replica file (es, []) = ((es', jd), e)"
  using assms
  by (auto simp: remove_step_def Let_def logging_info_def split: if_splits prod.splits option.splits)

text \<open>
  The relation between the state of the call on the filesystem and the state of the call on
  the two trees: the replica directory holds the entries, the source directory is as it
  was, the rest of the filesystem but the log file is as it was on entry, and the records
  written are the same.
\<close>

definition related ::
  "string list \<Rightarrow> string list \<Rightarrow> string list \<Rightarrow> (string \<times> node) list \<Rightarrow> state \<Rightarrow> state \<Rightarrow> run
     \<Rightarrow> bool" where
  "related lp sp rp src st0 st lc =
     (lookup (fst st) sp = Some (Dir src) \<and> lookup (fst st) rp = Some (Dir (fst lc))
      \<and> put lp None (fst st) = put lp None (put rp (Some (Dir (fst lc))) (fst st0))
      \<and> snd st = snd st0 @ snd lc)"

lemma related_after_put:
  assumes ap: "apart lp rp" "apart lp sp" "apart sp rp"
    and X0: "lookup X0 rp = Some u"
    and rel: "related lp sp rp src (X0, jn0) (X, jn) (es, j)"
    and E: "put lp None X' = put lp None (put rp (Some (Dir es')) X)"
  shows "related lp sp rp src (X0, jn0) (X', jn0 @ j') (es', j')"
proof -
  from rel have sp: "lookup X sp = Some (Dir src)" and rp: "lookup X rp = Some (Dir es)"
    and I: "put lp None X = put lp None (put rp (Some (Dir es)) X0)"
    by (simp_all add: related_def)
  have "lookup X' rp = lookup (put lp None X') rp"
    using ap(1) by (simp add: lookup_put_apart)
  also have "\<dots> = lookup (put rp (Some (Dir es')) X) rp"
    unfolding E using ap(1) by (simp add: lookup_put_apart)
  also have "\<dots> = Some (Dir es')" using rp by (rule lookup_put_same)
  finally have 1: "lookup X' rp = Some (Dir es')" .
  have "lookup X' sp = lookup (put lp None X') sp"
    using ap(2) by (simp add: lookup_put_apart)
  also have "\<dots> = lookup (put rp (Some (Dir es')) X) sp"
    unfolding E using ap(2) by (simp add: lookup_put_apart)
  also have "\<dots> = lookup X sp"
    using apart_sym[OF ap(3)] by (simp add: lookup_put_apart)
  finally have 2: "lookup X' sp = Some (Dir src)" using sp by simp
  have "put lp None X' = put rp (Some (Dir es')) (put lp None X)"
    unfolding E by (rule erase_put_commute[OF ap(1)])
  also have "\<dots> = put rp (Some (Dir es')) (put lp None (put rp (Some (Dir es)) X0))"
    unfolding I ..
  also have "\<dots> = put lp None (put rp (Some (Dir es')) (put rp (Some (Dir es)) X0))"
    by (rule erase_put_commute[OF ap(1), symmetric])
  also have "\<dots> = put lp None (put rp (Some (Dir es')) X0)"
    using X0 by (simp add: put_put_same)
  finally have 3: "put lp None X' = put lp None (put rp (Some (Dir es')) X0)" .
  from 1 2 3 show ?thesis by (simp add: related_def)
qed

lemma loop1_body_related:
  assumes ap: "apart lp rp" "apart lp sp" "apart sp rp"
    and X0: "lookup (fst st0) rp = Some u"
    and rel: "related lp sp rp src st0 st lc"
    and step: "copy_step os source replica src file lc = (lc', e)"
  shows "\<exists>st'. loop1_body os lp source replica sp rp file st = (st', e)
               \<and> related lp sp rp src st0 st' lc'"
proof -
  obtain X0' jn0 where st0: "st0 = (X0', jn0)" by (cases st0)
  obtain X jn where st: "st = (X, jn)" by (cases st)
  obtain es j where lc: "lc = (es, j)" by (cases lc)
  obtain es' j' where lc': "lc' = (es', j')" by (cases lc')
  from rel have sp: "lookup X sp = Some (Dir src)" and rp: "lookup X rp = Some (Dir es)"
    and jn: "jn = jn0 @ j"
    by (simp_all add: related_def st st0 lc)
  from copy_step_journal[OF step[unfolded lc lc']] obtain jd where
    jd: "j' = j @ jd" "copy_step os source replica src file (es, []) = ((es', jd), e)"
    by blast
  let ?X' = "fold (emit lp) jd (put rp (Some (Dir es')) X)"
  have body: "loop1_body os lp source replica sp rp file st = ((?X', jn @ jd), e)"
    using sp rp jd(2) by (simp add: loop1_body_def entries_at_def st logging_def)
  have E: "put lp None ?X' = put lp None (put rp (Some (Dir es')) X)"
    using apart_nonempty[OF ap(1)] by (simp add: fold_emit_erase)
  have "related lp sp rp src (X0', jn0) (?X', jn0 @ j') (es', j')"
    by (rule related_after_put[OF ap X0[unfolded st0, simplified] rel[unfolded st0 st lc] E])
  with body jn jd(1) show ?thesis by (simp add: st0 lc')
qed

lemma loop3_body_related:
  assumes ap: "apart lp rp" "apart lp sp" "apart sp rp"
    and X0: "lookup (fst st0) rp = Some u"
    and rel: "related lp sp rp src st0 st lc"
    and step: "remove_step os replica file lc = (lc', e)"
  shows "\<exists>st'. loop3_body os lp replica rp file st = (st', e)
               \<and> related lp sp rp src st0 st' lc'"
proof -
  obtain X0' jn0 where st0: "st0 = (X0', jn0)" by (cases st0)
  obtain X jn where st: "st = (X, jn)" by (cases st)
  obtain es j where lc: "lc = (es, j)" by (cases lc)
  obtain es' j' where lc': "lc' = (es', j')" by (cases lc')
  from rel have rp: "lookup X rp = Some (Dir es)" and jn: "jn = jn0 @ j"
    by (simp_all add: related_def st st0 lc)
  from remove_step_journal[OF step[unfolded lc lc']] obtain jd where
    jd: "j' = j @ jd" "remove_step os replica file (es, []) = ((es', jd), e)"
    by blast
  let ?X' = "fold (emit lp) jd (put rp (Some (Dir es')) X)"
  have body: "loop3_body os lp replica rp file st = ((?X', jn @ jd), e)"
    using rp jd(2) by (simp add: loop3_body_def entries_at_def st logging_def)
  have E: "put lp None ?X' = put lp None (put rp (Some (Dir es')) X)"
    using apart_nonempty[OF ap(1)] by (simp add: fold_emit_erase)
  have "related lp sp rp src (X0', jn0) (?X', jn0 @ j') (es', j')"
    by (rule related_after_put[OF ap X0[unfolded st0, simplified] rel[unfolded st0 st lc] E])
  with body jn jd(1) show ?thesis by (simp add: st0 lc')
qed

lemma for_loop_related:
  assumes step: "\<And>x G L L' e. x \<in> set xs \<Longrightarrow> R G L \<Longrightarrow> g x L = (L', e)
                   \<Longrightarrow> \<exists>G'. f x G = (G', e) \<and> R G' L'"
    and "R G L" and "for_loop g xs L = (L', e)"
  shows "\<exists>G'. for_loop f xs G = (G', e) \<and> R G' L'"
  using assms
proof (induction xs arbitrary: G L)
  case Nil
  then show ?case by auto
next
  case (Cons x xs)
  obtain L1 e1 where g: "g x L = (L1, e1)" by (cases "g x L")
  from Cons.prems(1)[OF _ Cons.prems(2) g] obtain G1 where
    f: "f x G = (G1, e1)" "R G1 L1" by auto
  show ?case
  proof (cases e1)
    case None
    with Cons.prems(3) g have "for_loop g xs L1 = (L', e)" by simp
    from Cons.IH[OF _ f(2) this] Cons.prems(1) obtain G' where
      "for_loop f xs G1 = (G', e)" "R G' L'" by auto
    with f None show ?thesis by auto
  next
    case (Some a)
    with Cons.prems(3) g f show ?thesis by auto
  qed
qed

lemma for_calls_related:
  assumes step: "\<And>x G L L' e. x \<in> set xs \<Longrightarrow> R G L \<Longrightarrow> g x L = (L', e)
                   \<Longrightarrow> \<exists>G'. f x G = Some (G', e) \<and> R G' L'"
    and "R G L" and "for_loop g xs L = (L', e)"
  shows "\<exists>G'. for_calls f xs G = Some (G', e) \<and> R G' L'"
  using assms
proof (induction xs arbitrary: G L)
  case Nil
  then show ?case by auto
next
  case (Cons x xs)
  obtain L1 e1 where g: "g x L = (L1, e1)" by (cases "g x L")
  from Cons.prems(1)[OF _ Cons.prems(2) g] obtain G1 where
    f: "f x G = Some (G1, e1)" "R G1 L1" by auto
  show ?case
  proof (cases e1)
    case None
    with Cons.prems(3) g have "for_loop g xs L1 = (L', e)" by simp
    from Cons.IH[OF _ f(2) this] Cons.prems(1) obtain G' where
      "for_calls f xs G1 = Some (G', e)" "R G' L'" by auto
    with f None show ?thesis by auto
  next
    case (Some a)
    with Cons.prems(3) g f show ?thesis by auto
  qed
qed

lemma subdir_call_related:
  assumes ap: "apart lp rp" "apart lp sp" "apart sp rp"
    and X0: "lookup (fst st0) rp = Some u"
    and IH: "\<And>X s r r' j e source replica sp rp jn.
        apart lp rp \<Longrightarrow> apart lp sp \<Longrightarrow> apart sp rp \<Longrightarrow> lookup X sp = Some s
        \<Longrightarrow> lookup X rp = Some r \<Longrightarrow> sync_trees os source replica s r = ((r', j), e)
        \<Longrightarrow> size s < n
        \<Longrightarrow> \<exists>X'. sync_folders n os lp source replica sp rp (X, jn) = Some ((X', jn @ j), e)
                 \<and> lookup X' rp = Some r' \<and> lookup X' sp = Some s
                 \<and> put lp None X' = put lp None (put rp (Some r') X)"
    and small: "size (Dir src) \<le> n"
    and d: "d \<in> set (common_dirs src rpl)"
    and rel: "related lp sp rp src st0 st lc"
    and step: "subdir_step os source replica src d lc = (lc', e)"
  shows "\<exists>st'. sync_folders n os lp (os_path_join source d) (os_path_join replica d)
                 (sp @ [d]) (rp @ [d]) st = Some (st', e)
               \<and> related lp sp rp src st0 st' lc'"
proof -
  obtain X0' jn0 where st0: "st0 = (X0', jn0)" by (cases st0)
  obtain X jn where st: "st = (X, jn)" by (cases st)
  obtain es j where lc: "lc = (es, j)" by (cases lc)
  from rel have sp: "lookup X sp = Some (Dir src)" and rp: "lookup X rp = Some (Dir es)"
    and jn: "jn = jn0 @ j"
    by (simp_all add: related_def st st0 lc)
  from d obtain sd where sd: "map_of src d = Some (Dir sd)"
    by (auto simp: set_common_dirs isdir_iff)
  have sz: "size (Dir sd) < n" using child_smaller[OF sd] small by simp
  then obtain m where n: "n = Suc m" by (cases n) auto
  have lsp: "lookup X (sp @ [d]) = Some (Dir sd)" using sp sd by (simp add: lookup_append)
  have lrp: "lookup X (rp @ [d]) = map_of es d" using rp by (simp add: lookup_append)
  have ap': "apart lp (rp @ [d])" "apart lp (sp @ [d])" "apart (sp @ [d]) (rp @ [d])"
    using ap by (auto intro: apart_sym apart_left_append apart_append)
  show ?thesis
  proof (cases "map_of es d")
    case None
    with step sd have l: "lc' = lc" "e = Some (FileNotFoundError (os_path_join replica d))"
      by (auto simp: subdir_step_def lc)
    have "sync_folders n os lp (os_path_join source d) (os_path_join replica d)
                 (sp @ [d]) (rp @ [d]) st = Some (st, e)"
      using lsp lrp None l(2) by (simp add: n st)
    with rel l(1) show ?thesis by auto
  next
    case (Some r0)
    obtain r'' jd where loc: "sync_trees os (os_path_join source d) (os_path_join replica d)
        (Dir sd) r0 = ((r'', jd), e)" "lc' = (AList.update d r'' es, j @ jd)"
      using step sd Some by (auto simp: subdir_step_def lc split: prod.splits)
    from IH[OF ap'(1,2,3) lsp _ loc(1) sz, of jn] lrp Some obtain X' where
      g: "sync_folders n os lp (os_path_join source d) (os_path_join replica d)
            (sp @ [d]) (rp @ [d]) (X, jn) = Some ((X', jn @ jd), e)"
      and E0: "put lp None X' = put lp None (put (rp @ [d]) (Some r'') X)"
      by auto
    have E: "put lp None X' = put lp None (put rp (Some (Dir (AList.update d r'' es))) X)"
      using E0 put_child_is_put_parent[OF rp, of d "Some r''"] by simp
    have "related lp sp rp src (X0', jn0) (X', jn0 @ (j @ jd)) (AList.update d r'' es, j @ jd)"
      by (rule related_after_put[OF ap X0[unfolded st0, simplified] rel[unfolded st0 st lc] E])
    with g jn loc(2) show ?thesis by (simp add: st st0)
  qed
qed

lemma sync_folders_apart_aux:
  "apart lp rp \<Longrightarrow> apart lp sp \<Longrightarrow> apart sp rp \<Longrightarrow> lookup X sp = Some s
   \<Longrightarrow> lookup X rp = Some r \<Longrightarrow> sync_trees os source replica s r = ((r', j), e)
   \<Longrightarrow> size s < depth
   \<Longrightarrow> \<exists>X'. sync_folders depth os lp source replica sp rp (X, jn) = Some ((X', jn @ j), e)
            \<and> lookup X' rp = Some r' \<and> lookup X' sp = Some s
            \<and> put lp None X' = put lp None (put rp (Some r') X)"
proof (induction depth arbitrary: X s r r' j e source replica sp rp jn)
  case 0
  then show ?case by simp
next
  case (Suc n)
  note ap = Suc.prems(1,2,3)
  note lsp = Suc.prems(4) and lrp = Suc.prems(5) and loc = Suc.prems(6)
  show ?case
  proof (cases s)
    case (File c t m)
    with loc have "r' = r" "j = []" "e = Some (NotADirectoryError source)" by auto
    with File lsp lrp show ?thesis by (simp add: put_unchanged)
  next
    case s: (Dir src)
    show ?thesis
    proof (cases r)
      case (File c t m)
      with loc s have "r' = r" "j = []" "e = Some (NotADirectoryError replica)" by auto
      with File s lsp lrp show ?thesis by (simp add: put_unchanged)
    next
      case r: (Dir rpl)
      let ?R = "related lp sp rp src (X, jn)"
      have small: "size (Dir src) \<le> n" using Suc.prems(7) s by simp
      have X0: "lookup (fst (X, jn)) rp = Some (Dir rpl)" using lrp r by simp
      have init: "?R (X, jn) (rpl, [])"
        using lsp lrp s r by (simp add: related_def put_unchanged)
      have step1: "\<exists>G'. loop1_body os lp source replica sp rp x G = (G', e1) \<and> ?R G' L'"
        if "x \<in> set (left_only src rpl @ diff_files src rpl)" "?R G L"
          "copy_step os source replica src x L = (L', e1)" for x G L L' e1
        by (rule loop1_body_related[OF ap X0 that(2,3)])
      have step2: "\<exists>G'. sync_folders n os lp (os_path_join source x) (os_path_join replica x)
                 (sp @ [x]) (rp @ [x]) G = Some (G', e1) \<and> ?R G' L'"
        if "x \<in> set (common_dirs src rpl)" "?R G L"
          "subdir_step os source replica src x L = (L', e1)" for x G L L' e1
        by (rule subdir_call_related[OF ap X0 Suc.IH small that]) 
      have step3: "\<exists>G'. loop3_body os lp replica rp x G = (G', e1) \<and> ?R G' L'"
        if "x \<in> set (right_only src rpl)" "?R G L"
          "remove_step os replica x L = (L', e1)" for x G L L' e1
        by (rule loop3_body_related[OF ap X0 that(2,3)])
      have fin: "\<exists>X'. G = (X', jn @ j1) \<and> lookup X' rp = Some (Dir es1)
                 \<and> lookup X' sp = Some s
                 \<and> put lp None X' = put lp None (put rp (Some (Dir es1)) X)"
        if "?R G (es1, j1)" for G es1 j1
        using that by (cases G) (simp add: related_def s)
      have unfold: "sync_folders (Suc n) os lp source replica sp rp (X, jn) =
          (case for_loop (loop1_body os lp source replica sp rp)
                       (left_only src rpl @ diff_files src rpl) (X, jn) of
                  (st1, Some e) \<Rightarrow> Some (st1, Some e)
                | (st1, None) \<Rightarrow>
                    (case for_calls
                            (\<lambda>sub_dir. sync_folders n os lp (os_path_join source sub_dir)
                                         (os_path_join replica sub_dir) (sp @ [sub_dir])
                                         (rp @ [sub_dir]))
                            (common_dirs src rpl) st1 of
                       None \<Rightarrow> None
                     | Some (st2, Some e) \<Rightarrow> Some (st2, Some e)
                     | Some (st2, None) \<Rightarrow>
                         Some (for_loop (loop3_body os lp replica rp) (right_only src rpl) st2)))"
        using lsp lrp s r by simp
      let ?rec = "\<lambda>sub_dir. sync_folders n os lp (os_path_join source sub_dir)
                                         (os_path_join replica sub_dir) (sp @ [sub_dir])
                                         (rp @ [sub_dir])"
      have L1: "\<exists>G1. for_loop (loop1_body os lp source replica sp rp)
             (left_only src rpl @ diff_files src rpl) (X, jn) = (G1, e1) \<and> ?R G1 (es1, j1)"
        if "for_loop (copy_step os source replica src)
             (left_only src rpl @ diff_files src rpl) (rpl, []) = ((es1, j1), e1)" for es1 j1 e1
      proof (rule for_loop_related[where R="?R" and g="copy_step os source replica src"])
        show "?R (X, jn) (rpl, [])" by (rule init)
        show "for_loop (copy_step os source replica src)
             (left_only src rpl @ diff_files src rpl) (rpl, []) = ((es1, j1), e1)" by (rule that)
      qed (rule step1, assumption+)
      have L2: "\<exists>G2. for_calls ?rec (common_dirs src rpl) G1 = Some (G2, e1) \<and> ?R G2 (es2, j2)"
        if "?R G1 (es1, j1)"
          "for_loop (subdir_step os source replica src) (common_dirs src rpl) (es1, j1)
             = ((es2, j2), e1)" for G1 es1 j1 es2 j2 e1
      proof (rule for_calls_related[where R="?R" and g="subdir_step os source replica src"])
        show "?R G1 (es1, j1)" by (rule that(1))
        show "for_loop (subdir_step os source replica src) (common_dirs src rpl) (es1, j1)
             = ((es2, j2), e1)" by (rule that(2))
      qed (rule step2, assumption+)
      have L3: "\<exists>G3. for_loop (loop3_body os lp replica rp) (right_only src rpl) G2 = (G3, e1)
                  \<and> ?R G3 (es3, j3)"
        if "?R G2 (es2, j2)"
          "for_loop (remove_step os replica) (right_only src rpl) (es2, j2) = ((es3, j3), e1)"
        for G2 es2 j2 es3 j3 e1
      proof (rule for_loop_related[where R="?R" and g="remove_step os replica"])
        show "?R G2 (es2, j2)" by (rule that(1))
        show "for_loop (remove_step os replica) (right_only src rpl) (es2, j2) = ((es3, j3), e1)"
          by (rule that(2))
      qed (rule step3, assumption+)
      from sync_loops[OF loc[unfolded s r]] consider
        (one) es1 j1 where "for_loop (copy_step os source replica src)
             (left_only src rpl @ diff_files src rpl) (rpl, []) = ((es1, j1), e)"
            "e \<noteq> None" "r' = Dir es1" "j = j1"
      | (two) es1 j1 es2 j2 where "for_loop (copy_step os source replica src)
             (left_only src rpl @ diff_files src rpl) (rpl, []) = ((es1, j1), None)"
            "for_loop (subdir_step os source replica src) (common_dirs src rpl) (es1, j1)
                = ((es2, j2), e)" "e \<noteq> None" "r' = Dir es2" "j = j2"
      | (three) es1 j1 es2 j2 es3 j3 where "for_loop (copy_step os source replica src)
             (left_only src rpl @ diff_files src rpl) (rpl, []) = ((es1, j1), None)"
            "for_loop (subdir_step os source replica src) (common_dirs src rpl) (es1, j1)
                = ((es2, j2), None)"
            "for_loop (remove_step os replica) (right_only src rpl) (es2, j2)
                = ((es3, j3), e)" "r' = Dir es3" "j = j3"
        by blast
      then show ?thesis
      proof cases
        case one
        from L1[OF one(1)] obtain G1 where g1: "for_loop (loop1_body os lp source replica sp rp)
             (left_only src rpl @ diff_files src rpl) (X, jn) = (G1, e)" "?R G1 (es1, j1)"
          by blast
        from fin[OF g1(2)] g1(1) one(2,3,4) show ?thesis
          unfolding unfold by auto
      next
        case two
        from L1[OF two(1)] obtain G1 where g1: "for_loop (loop1_body os lp source replica sp rp)
             (left_only src rpl @ diff_files src rpl) (X, jn) = (G1, None)" "?R G1 (es1, j1)"
          by blast
        from L2[OF g1(2) two(2)] obtain G2 where
          g2: "for_calls ?rec (common_dirs src rpl) G1 = Some (G2, e)" "?R G2 (es2, j2)"
          by blast
        from fin[OF g2(2)] g1(1) g2(1) two(3,4,5) show ?thesis
          unfolding unfold by auto
      next
        case three
        from L1[OF three(1)] obtain G1 where g1: "for_loop (loop1_body os lp source replica sp rp)
             (left_only src rpl @ diff_files src rpl) (X, jn) = (G1, None)" "?R G1 (es1, j1)"
          by blast
        from L2[OF g1(2) three(2)] obtain G2 where
          g2: "for_calls ?rec (common_dirs src rpl) G1 = Some (G2, None)" "?R G2 (es2, j2)"
          by blast
        from L3[OF g2(2) three(3)] obtain G3 where
          g3: "for_loop (loop3_body os lp replica rp) (right_only src rpl) G2 = (G3, e)"
            "?R G3 (es3, j3)"
          by blast
        from fin[OF g3(2)] g1(1) g2(1) g3(1) three(4,5) show ?thesis
          unfolding unfold by auto
      qed
    qed
  qed
qed

lemma for_calls_mono:
  assumes "\<And>x s r. x \<in> set xs \<Longrightarrow> f x s = Some r \<Longrightarrow> g x s = Some r"
    and "for_calls f xs s = Some r"
  shows "for_calls g xs s = Some r"
  using assms
proof (induction xs arbitrary: s)
  case Nil
  then show ?case by simp
next
  case (Cons x xs)
  from Cons.prems(2) obtain s1 e1 where f: "f x s = Some (s1, e1)"
    by (auto split: option.splits)
  with Cons.prems(1) have g: "g x s = Some (s1, e1)" by simp
  show ?case
  proof (cases e1)
    case None
    with Cons.prems(2) f have "for_calls f xs s1 = Some r" by simp
    from Cons.IH[OF _ this] Cons.prems(1) have "for_calls g xs s1 = Some r" by simp
    with g None show ?thesis by simp
  next
    case (Some a)
    with Cons.prems(2) f g show ?thesis by auto
  qed
qed

lemma sync_folders_mono:
  "sync_folders d os lp source replica sp rp st = Some res
   \<Longrightarrow> sync_folders (d + k) os lp source replica sp rp st = Some res"
proof (induction d arbitrary: source replica sp rp st res)
  case 0
  then show ?case by simp
next
  case (Suc d)
  have rec: "for_calls (\<lambda>sub_dir. sync_folders (d + k) os lp (os_path_join source sub_dir)
                 (os_path_join replica sub_dir) (sp @ [sub_dir]) (rp @ [sub_dir])) xs s = Some r"
    if "for_calls (\<lambda>sub_dir. sync_folders d os lp (os_path_join source sub_dir)
                 (os_path_join replica sub_dir) (sp @ [sub_dir]) (rp @ [sub_dir])) xs s = Some r"
    for xs s r
    by (rule for_calls_mono[OF _ that]) (rule Suc.IH)
  show ?case using Suc.prems rec
    by (auto split: option.splits node.splits prod.splits)
qed

lemma sync_folders_apart:
  assumes ap: "apart lp rp" "apart lp sp" "apart sp rp"
    and lsp: "lookup X sp = Some s" and lrp: "lookup X rp = Some r"
    and run: "sync_folders depth os lp source replica sp rp (X, jn) = Some ((X', jn'), e)"
  shows "\<exists>r' j. sync_trees os source replica s r = ((r', j), e) \<and> jn' = jn @ j
           \<and> lookup X' rp = Some r' \<and> lookup X' sp = Some s
           \<and> put lp None X' = put lp None (put rp (Some r') X)"
proof -
  obtain r' j e0 where loc: "sync_trees os source replica s r = ((r', j), e0)"
    by (metis surj_pair)
  have "size s < depth + Suc (size s)" by simp
  from sync_folders_apart_aux[OF ap lsp lrp loc this, of jn] obtain X'' where
    f: "sync_folders (depth + Suc (size s)) os lp source replica sp rp (X, jn)
          = Some ((X'', jn @ j), e0)"
    "lookup X'' rp = Some r'" "lookup X'' sp = Some s"
    "put lp None X'' = put lp None (put rp (Some r') X)"
    by blast
  from sync_folders_mono[OF run, of "Suc (size s)"] f(1)
  have "X' = X''" "jn' = jn @ j" "e = e0" by simp_all
  with loc f show ?thesis by simp
qed

lemma sync_folders_frame:
  assumes ap: "apart lp rp" "apart lp sp" "apart sp rp"
    and lsp: "lookup X sp = Some s" and lrp: "lookup X rp = Some r"
    and run: "sync_folders depth os lp source replica sp rp (X, jn) = Some ((X', jn'), e)"
    and q: "apart lp q" "apart rp q"
  shows "lookup X' q = lookup X q"
proof -
  from sync_folders_apart[OF ap lsp lrp run] obtain r' where
    E: "put lp None X' = put lp None (put rp (Some r') X)" by blast
  have "lookup X' q = lookup (put lp None X') q" using q(1) by (simp add: lookup_put_apart)
  also have "\<dots> = lookup X q" unfolding E using q by (simp add: lookup_put_apart)
  finally show ?thesis .
qed

lemma lookup_under:
  assumes "lookup X p = Some t"
  shows "lookup X (p @ q) = lookup t q"
  using assms
proof (induction p arbitrary: X)
  case Nil
  then show ?case by simp
next
  case (Cons a p)
  then show ?case by (cases X) (auto split: option.splits)
qed

section \<open>Startup and the scheduling loop\<close>





lemma main_enters_loop:
  assumes "snd (open_log os log_path (clock w) (fs w)) = None"
    and "\<not> validation_fails (at_check os log_path w) source replica"
  shows "main os secs depth source replica n log_path fuel w =
     while_True os secs depth (resolve log_path) source replica fuel
       (w\<lparr>fs := at_check os log_path w,
          journal := journal w @ [(INFO, ''Starting initial synchronization.'')],
          jobs := Some \<lparr>interval = n, next_run = clock w + n\<rparr>\<rparr>)"
  using assms
  by (cases "open_log os log_path (clock w) (fs w)")
     (auto simp: main_def try_block_def every_seconds_do_def Let_def log_world_def at_check_def
        validation_fails_def)

lemma while_True_idle:
  assumes "jobs w = Some jb" and "clock w + int fuel \<le> next_run jb"
  shows "while_True os secs depth lp source replica fuel w
           = Some (Running, w\<lparr>clock := clock w + int fuel\<rparr>)"
  using assms
proof (induction fuel arbitrary: w)
  case 0
  then show ?case by simp
next
  case (Suc fuel)
  have rp: "run_pending os secs depth lp source replica w = Some (w, None)"
    using Suc.prems by (simp add: run_pending_def)
  have "while_True os secs depth lp source replica fuel (time_sleep 1 w)
          = Some (Running, (time_sleep 1 w)\<lparr>clock := clock (time_sleep 1 w) + int fuel\<rparr>)"
    using Suc.prems by (intro Suc.IH) (auto simp: time_sleep_def)
  then show ?case using rp by (simp add: time_sleep_def add.assoc add.commute)
qed

lemma while_True_add:
  "while_True os secs depth lp source replica (m + k) w =
     (case while_True os secs depth lp source replica m w of
        Some (Running, w') \<Rightarrow> while_True os secs depth lp source replica k w'
      | other \<Rightarrow> other)"
  by (induction m arbitrary: w) (auto split: prod.splits option.splits outcome.splits)

lemma main_idle:
  assumes "snd (open_log os log_path (clock w) (fs w)) = None"
    and "\<not> validation_fails (at_check os log_path w) source replica"
    and "int fuel \<le> n"
  shows "main os secs depth source replica n log_path fuel w =
     Some (Running, w\<lparr>clock := clock w + int fuel, fs := at_check os log_path w,
        journal := journal w @ [(INFO, ''Starting initial synchronization.'')],
        jobs := Some \<lparr>interval = n, next_run = clock w + n\<rparr>\<rparr>)"
proof -
  let ?w1 = "w\<lparr>fs := at_check os log_path w,
        journal := journal w @ [(INFO, ''Starting initial synchronization.'')],
        jobs := Some \<lparr>interval = n, next_run = clock w + n\<rparr>\<rparr>"
  have "main os secs depth source replica n log_path fuel w
          = while_True os secs depth (resolve log_path) source replica fuel ?w1"
    by (rule main_enters_loop[OF assms(1,2)])
  also have "\<dots> = Some (Running, ?w1\<lparr>clock := clock ?w1 + int fuel\<rparr>)"
    using assms(3)
    by (intro while_True_idle[where jb="\<lparr>interval = n, next_run = clock w + n\<rparr>"]) auto
  finally show ?thesis by simp
qed

lemma sync_folders_missing_root:
  assumes "lookup (fst st) sp = None"
  shows "sync_folders (Suc depth) os lp source replica sp rp st
           = Some (st, Some (FileNotFoundError source))"
  using assms by simp

text \<open>
  C3 (the code does otherwise). The claim: after a successful validation the callback runs
  once at once, before the first interval has elapsed, and then once per interval. The
  comment on line 54 and the log line of line 55 announce an initial synchronization, but
  the only call of \<^verbatim>\<open>sync_folders\<close> is the job registered on line 58, which is first due one
  interval after the start. With the default interval of 3600 seconds, the log file
  \<^verbatim>\<open>sync.log\<close>, a source that holds \<^verbatim>\<open>a.txt\<close> and an empty replica: after 3600 iterations
  of the loop (3600 seconds) \<^verbatim>\<open>sync_folders\<close> has not been called and the replica is still
  empty; the first call is made in iteration 3601.
\<close>

theorem main_first_sync_after_interval:
  "main no_failures 0 9 ''/src'' ''/rpl'' 3600 ''sync.log'' 3600 world0 =
     Some (Running, world0\<lparr>clock := 3600,
        fs := Dir [(''src'', Dir [(''a.txt'', File ''v1'' 0 0)]), (''rpl'', Dir []),
                   (''sync.log'',
                    File (format_record (INFO, ''Starting initial synchronization.'')) 0 420)],
        journal := [(INFO, ''Starting initial synchronization.'')],
        jobs := Some \<lparr>interval = 3600, next_run = 3600\<rparr>\<rparr>)
   \<and> map_option (\<lambda>r. calls (snd r))
         (main no_failures 0 9 ''/src'' ''/rpl'' 3600 ''sync.log'' 3600 world0) = Some 0
   \<and> map_option (\<lambda>r. lookup (fs (snd r)) [''rpl''])
         (main no_failures 0 9 ''/src'' ''/rpl'' 3600 ''sync.log'' 3600 world0)
       = Some (Some (Dir []))
   \<and> map_option (\<lambda>r. calls (snd r))
         (main no_failures 0 9 ''/src'' ''/rpl'' 3600 ''sync.log'' 3601 world0) = Some 1
   \<and> map_option (\<lambda>r. lookup (fs (snd r)) [''rpl''])
         (main no_failures 0 9 ''/src'' ''/rpl'' 3600 ''sync.log'' 3601 world0)
       = Some (Some (Dir [(''a.txt'', File ''v1'' 0 0)]))"
proof -
  let ?f = "Dir [(''src'', Dir [(''a.txt'', File ''v1'' 0 0)]), (''rpl'', Dir []),
                 (''sync.log'',
                  File (format_record (INFO, ''Starting initial synchronization.'')) 0 420)]"
  let ?w = "world0\<lparr>clock := 3600, fs := ?f,
        journal := [(INFO, ''Starting initial synchronization.'')],
        jobs := Some \<lparr>interval = 3600, next_run = 3600\<rparr>\<rparr>"
  have ol: "snd (open_log no_failures ''sync.log'' (clock world0) (fs world0)) = None"
    by code_simp
  have ac: "at_check no_failures ''sync.log'' world0 = ?f"
    by code_simp
  have va: "\<not> validation_fails (at_check no_failures ''sync.log'' world0) ''/src'' ''/rpl''"
    by code_simp
  have idle: "main no_failures 0 9 ''/src'' ''/rpl'' 3600 ''sync.log'' 3600 world0
                = Some (Running, ?w)"
    using main_idle[OF ol va, of 3600 3600 0 9] unfolding ac by (simp add: world0_def)
  have loop: "main no_failures 0 9 ''/src'' ''/rpl'' 3600 ''sync.log'' fuel world0 =
      while_True no_failures 0 9 (resolve ''sync.log'') ''/src'' ''/rpl'' fuel
        (world0\<lparr>fs := ?f, journal := [(INFO, ''Starting initial synchronization.'')],
          jobs := Some \<lparr>interval = 3600, next_run = 3600\<rparr>\<rparr>)" for fuel
    using main_enters_loop[OF ol va, of 0 9 3600 fuel] unfolding ac by (simp add: world0_def)
  have "main no_failures 0 9 ''/src'' ''/rpl'' 3600 ''sync.log'' (3600 + 1) world0 =
      while_True no_failures 0 9 (resolve ''sync.log'') ''/src'' ''/rpl'' 1 ?w"
    using idle by (simp only: loop while_True_add) simp
  moreover have
    "map_option (\<lambda>r. calls (snd r))
       (while_True no_failures 0 9 (resolve ''sync.log'') ''/src'' ''/rpl'' 1 ?w) = Some 1
     \<and> map_option (\<lambda>r. lookup (fs (snd r)) [''rpl''])
         (while_True no_failures 0 9 (resolve ''sync.log'') ''/src'' ''/rpl'' 1 ?w)
       = Some (Some (Dir [(''a.txt'', File ''v1'' 0 0)]))"
    by code_simp
  ultimately show ?thesis using idle by (simp add: world0_def)
qed




text \<open>
  C5 (the code does otherwise). The claim: arguments that resolve to the same path are
  rejected at startup, with no change to the filesystem. Line 66 announces a check that
  source and replica folders differ, but line 67 compares the two argument strings and
  nothing in the script resolves a path: \<^verbatim>\<open>/data\<close> and \<^verbatim>\<open>/data/\<close> name the same directory
  and pass the check. No error is logged, the job is registered and the loop is entered.
\<close>

theorem main_trailing_separator_accepted:
  "resolve ''/data/'' = resolve ''/data''
   \<and> main no_failures 0 9 ''/data'' ''/data/'' 3600 ''sync.log'' 1 world_same =
       Some (Running, world_same\<lparr>clock := 1,
         fs := Dir [(''data'', Dir [(''a.txt'', File ''v1'' 0 0)]),
                    (''sync.log'',
                     File (format_record (INFO, ''Starting initial synchronization.'')) 0 420)],
         journal := [(INFO, ''Starting initial synchronization.'')],
         jobs := Some \<lparr>interval = 3600, next_run = 3600\<rparr>\<rparr>)"
  by code_simp

text \<open>
  C9 (as the code has it). The claim: an exception of the scheduled callback is caught and
  logged, and the scheduler fires again after the next interval. Neither \<^verbatim>\<open>run_pending\<close> nor
  the loop of \<^verbatim>\<open>main\<close> has a handler. What holds: when the job is due and \<^verbatim>\<open>sync_folders\<close>
  raises, whatever the exception, be it a refused call or a root directory that is no
  longer there, the exception leaves the loop in that iteration; the process ends with it,
  nothing is added to the log beyond what the run had written, the job is not set for a
  next run, and however many further iterations one allows, no other call is made.
\<close>

theorem while_True_ends_when_callback_raises:
  assumes "jobs w = Some jb" and "next_run jb \<le> clock w"
    and "sync_folders depth os lp source replica (resolve source) (resolve replica)
           (fs w, journal w) = Some ((f, j), Some e)"
  shows "while_True os secs depth lp source replica (Suc fuel) w =
     Some (Uncaught e, w\<lparr>clock := clock w + secs, fs := f, journal := j,
                            calls := Suc (calls w)\<rparr>)"
  using assms by (simp add: run_pending_def job_func_def)

theorem while_True_ends_when_callback_raises_witness:
  "jobs world_due = Some \<lparr>interval = 3, next_run = 0\<rparr>
   \<and> next_run \<lparr>interval = 3, next_run = 0\<rparr> \<le> clock world_due
   \<and> lookup (fs world_due) (resolve ''/src'') = None
   \<and> sync_folders 9 no_failures [''sync.log''] ''/src'' ''/rpl'' (resolve ''/src'')
         (resolve ''/rpl'') (fs world_due, journal world_due)
       = Some ((fs world_due, []), Some (FileNotFoundError ''/src''))
   \<and> while_True no_failures 0 9 [''sync.log''] ''/src'' ''/rpl'' (Suc 9) world_due
       = Some (Uncaught (FileNotFoundError ''/src''), world_due\<lparr>calls := 1\<rparr>)"
proof -
  have j: "jobs world_due = Some \<lparr>interval = 3, next_run = 0\<rparr>"
    and c: "next_run \<lparr>interval = 3, next_run = 0\<rparr> \<le> clock world_due"
    and jn: "journal world_due = []" and cl: "calls world_due = 0" "clock world_due = 0"
    by (simp_all add: world_due_def world_missing_def)
  have l: "lookup (fs world_due) (resolve ''/src'') = None"
    by code_simp
  have s: "sync_folders 9 no_failures [''sync.log''] ''/src'' ''/rpl'' (resolve ''/src'')
         (resolve ''/rpl'') (fs world_due, journal world_due)
       = Some ((fs world_due, []), Some (FileNotFoundError ''/src''))"
    using sync_folders_missing_root[of "(fs world_due, journal world_due)" "resolve ''/src''" 8]
      l jn by (simp add: eval_nat_numeral)
  show ?thesis
    using while_True_ends_when_callback_raises[OF j c s, of 0 9] j c l s jn cl
    by (simp add: world_due_def)
qed

theorem main_dies_with_callback:
  "main no_copies 0 9 ''/src'' ''/rpl'' 3 ''sync.log'' 10 world0 =
     Some (Uncaught (OSError (Copy2 ''/src/a.txt'' ''/rpl/a.txt'')),
           world0\<lparr>clock := 3,
             fs := Dir [(''src'', Dir [(''a.txt'', File ''v1'' 0 0)]), (''rpl'', Dir []),
                        (''sync.log'',
                         File (format_record (INFO, ''Starting initial synchronization.'')) 0 420)],
             journal := [(INFO, ''Starting initial synchronization.'')],
             jobs := Some \<lparr>interval = 3, next_run = 3\<rparr>, calls := 1\<rparr>)"
  by code_simp

end
